theory Spec2Isabelle
  imports Main "HOL-Library.Word"
begin

section \<open>Objects, pointers and undefined behaviour\<close>

text \<open>
  The program of \<^verbatim>\<open>main.cpp\<close> demonstrates three creational patterns on objects that
  are reached through pointers. An object lives in the store of its class, a pointer is
  the index of its object there, and a slot that holds \<open>None\<close> is an object that has been
  destroyed. \<^verbatim>\<open>new\<close> (and a declaration of a local object whose address is taken) appends
  a slot, so the object it yields is distinct from every object created before;
  allocation is taken never to fail.
\<close>

type_synonym addr = nat
type_synonym 'a heap = "'a option list"

definition heap_get :: "'a heap \<Rightarrow> addr \<Rightarrow> 'a option" where
  "heap_get h a = (if a < length h then h ! a else None)"

definition heap_new :: "'a \<Rightarrow> 'a heap \<Rightarrow> addr \<times> 'a heap" where
  "heap_new x h = (length h, h @ [Some x])"

definition heap_put :: "addr \<Rightarrow> 'a \<Rightarrow> 'a heap \<Rightarrow> 'a heap" where
  "heap_put a x h = h[a := Some x]"

definition heap_delete :: "addr \<Rightarrow> 'a heap \<Rightarrow> 'a heap" where
  "heap_delete a h = h[a := None]"

text \<open>
  The source checks nothing. Where C++ leaves the behaviour undefined, the model returns
  the reason as an error value instead of a result.
\<close>

datatype error =
    NullPointer        \<comment> \<open>\<^verbatim>\<open>->\<close> on a null \<^verbatim>\<open>unique_ptr\<close> or null pointer\<close>
  | InvalidPointer     \<comment> \<open>a pointer that was never set, or whose object is gone\<close>
  | BufferOverflow     \<comment> \<open>\<^verbatim>\<open>strcpy\<close> past the end of \<^verbatim>\<open>char name[20]\<close>\<close>
  | IndexOutOfBounds   \<comment> \<open>\<^verbatim>\<open>_docs[i]\<close> with \<open>i\<close> outside \<open>0..9\<close>\<close>

definition and_then :: "error + 'a \<Rightarrow> ('a \<Rightarrow> error + 'b) \<Rightarrow> error + 'b" where
  "and_then m f = (case m of Inl e \<Rightarrow> Inl e | Inr x \<Rightarrow> f x)"

section \<open>The classes\<close>

subsection \<open>Builder: Pizza, PizzaBuilder and its two subclasses, Cook\<close>

record Pizza =
  m_dough :: string
  m_sauce :: string
  m_topping :: string

datatype PizzaBuilder_class = HawaiianPizzaBuilder | SpicyPizzaBuilder

text \<open>\<open>m_pizza\<close> is the \<^verbatim>\<open>unique_ptr<Pizza>\<close>: \<open>None\<close> is the null pointer.\<close>

record PizzaBuilder =
  builder_class :: PizzaBuilder_class
  m_pizza :: "addr option"

text \<open>
  \<open>m_pizzaBuilder\<close> is a plain pointer that the implicit constructor of \<^verbatim>\<open>Cook\<close> leaves
  unset: \<open>None\<close> is that indeterminate value.
\<close>

record Cook =
  m_pizzaBuilder :: "addr option"

subsection \<open>Factory method: Document, MyDocument, Application, MyApplication\<close>

datatype Document_class = MyDocument

text \<open>
  \<open>name\<close> is the content of \<^verbatim>\<open>char name[20]\<close>: the characters before the terminating
  NUL. A \<^verbatim>\<open>char *\<close> argument is the same: the characters of the C string it points to.
\<close>

record Document =
  document_class :: Document_class
  name :: string

datatype Application_class = MyApplication

text \<open>
  \<open>m_index\<close> and \<open>m_docs\<close> are the members \<^verbatim>\<open>_index\<close> and \<^verbatim>\<open>_docs\<close> (an Isabelle name
  starts with a letter). \<open>m_docs\<close> has the ten slots of \<^verbatim>\<open>Document *_docs[10]\<close>; a slot
  that was never written holds \<open>None\<close>.
\<close>

record Application =
  application_class :: Application_class
  m_index :: int
  m_docs :: "addr option list"

subsection \<open>Abstract factory: Shape and its four subclasses, Factory and its two\<close>

datatype Shape_class = Circle | Square | Ellipse | Rectangle

text \<open>
  \<open>shape_id\<close> is the member \<^verbatim>\<open>id_\<close> (Isabelle keeps names that end in an underscore for
  itself), a C++ \<^verbatim>\<open>int\<close>: 32 bits, read as two's complement by \<open>sint\<close>.
\<close>

record Shape =
  shape_class :: Shape_class
  shape_id :: "32 word"

text \<open>A factory has no data members: all the code can tell of one is its class.\<close>

datatype Factory = SimpleShapeFactory | RobustShapeFactory

subsection \<open>The state of the process\<close>

text \<open>
  The log \<open>calls\<close> is not program state and no function reads it. Every member function
  of \<^verbatim>\<open>PizzaBuilder\<close> and of \<^verbatim>\<open>Document\<close>, and the hook \<^verbatim>\<open>Application::CreateDocument\<close>,
  enters itself there when it is called, so that which of them ran, on which object and
  in which order can be read off a result.
\<close>

datatype call =
    Call_getPizza addr
  | Call_createNewPizzaProduct addr
  | Call_buildDough addr
  | Call_buildSauce addr
  | Call_buildTopping addr
  | Call_CreateDocument string
  | Call_Open addr
  | Call_Close addr
  | Call_GetName addr

record world =
  pizza_heap :: "Pizza heap"
  builder_heap :: "PizzaBuilder heap"
  document_heap :: "Document heap"
  shape_heap :: "Shape heap"
  shape_total :: "32 word"     \<comment> \<open>\<^verbatim>\<open>static int Shape::total_\<close>\<close>
  cout :: string               \<comment> \<open>everything written to standard output so far\<close>
  calls :: "call list"

text \<open>\<^verbatim>\<open>int Shape::total_ = 0;\<close> and nothing else exists when \<^verbatim>\<open>main\<close> starts.\<close>

definition initial :: world where
  "initial = \<lparr>pizza_heap = [], builder_heap = [], document_heap = [], shape_heap = [],
              shape_total = 0, cout = [], calls = []\<rparr>"

definition endl :: string where
  "endl = [CHR 0x0A]"

definition print :: "string \<Rightarrow> world \<Rightarrow> world" where
  "print str s = s\<lparr>cout := cout s @ str\<rparr>"

definition log_call :: "call \<Rightarrow> world \<Rightarrow> world" where
  "log_call c s = s\<lparr>calls := calls s @ [c]\<rparr>"

section \<open>Builder\<close>

definition setDough :: "string \<Rightarrow> Pizza \<Rightarrow> Pizza" where
  "setDough dough p = p\<lparr>m_dough := dough\<rparr>"

definition setSauce :: "string \<Rightarrow> Pizza \<Rightarrow> Pizza" where
  "setSauce sauce p = p\<lparr>m_sauce := sauce\<rparr>"

definition setTopping :: "string \<Rightarrow> Pizza \<Rightarrow> Pizza" where
  "setTopping topping p = p\<lparr>m_topping := topping\<rparr>"

definition Pizza_open :: "Pizza \<Rightarrow> world \<Rightarrow> world" where
  "Pizza_open p s =
     print (''Pizza with '' @ m_dough p @ '' dough, '' @ m_sauce p @ '' sauce and ''
            @ m_topping p @ '' topping. Mmm.'' @ endl) s"

text \<open>
  \<^verbatim>\<open>m_pizza->f(...)\<close> inside a member function of the builder \<open>this\<close>: the builder's
  \<^verbatim>\<open>unique_ptr\<close> is read and the mutator \<open>f\<close> runs on the pizza it owns.
\<close>

definition m_pizza_arrow :: "addr \<Rightarrow> (Pizza \<Rightarrow> Pizza) \<Rightarrow> world \<Rightarrow> error + world" where
  "m_pizza_arrow this f s =
     (case heap_get (builder_heap s) this of
        None \<Rightarrow> Inl InvalidPointer
      | Some b \<Rightarrow>
          (case m_pizza b of
             None \<Rightarrow> Inl NullPointer
           | Some a \<Rightarrow>
               (case heap_get (pizza_heap s) a of
                  None \<Rightarrow> Inl InvalidPointer
                | Some p \<Rightarrow> Inr (s\<lparr>pizza_heap := heap_put a (f p) (pizza_heap s)\<rparr>))))"

definition getPizza :: "addr \<Rightarrow> world \<Rightarrow> error + (addr option \<times> world)" where
  "getPizza this s =
     (case heap_get (builder_heap s) this of
        None \<Rightarrow> Inl InvalidPointer
      | Some b \<Rightarrow> Inr (m_pizza b, log_call (Call_getPizza this) s))"

text \<open>
  \<^verbatim>\<open>m_pizza = make_unique<Pizza>();\<close> allocates a pizza with three empty strings, makes
  \<open>m_pizza\<close> own it and destroys the pizza that \<open>m_pizza\<close> owned before, if any.
\<close>

definition createNewPizzaProduct :: "addr \<Rightarrow> world \<Rightarrow> error + world" where
  "createNewPizzaProduct this s =
     (case heap_get (builder_heap s) this of
        None \<Rightarrow> Inl InvalidPointer
      | Some b \<Rightarrow>
          (let s0 = log_call (Call_createNewPizzaProduct this) s;
               (a, h) = heap_new \<lparr>m_dough = [], m_sauce = [], m_topping = []\<rparr> (pizza_heap s0);
               s1 = s0\<lparr>pizza_heap := h,
                       builder_heap := heap_put this (b\<lparr>m_pizza := Some a\<rparr>) (builder_heap s0)\<rparr>
           in case m_pizza b of
                None \<Rightarrow> Inr s1
              | Some old \<Rightarrow>
                  (case heap_get (pizza_heap s1) old of
                     None \<Rightarrow> Inl InvalidPointer
                   | Some p \<Rightarrow> Inr (s1\<lparr>pizza_heap := heap_delete old (pizza_heap s1)\<rparr>))))"

definition HawaiianPizzaBuilder_buildDough :: "addr \<Rightarrow> world \<Rightarrow> error + world" where
  "HawaiianPizzaBuilder_buildDough this s = m_pizza_arrow this (setDough ''cross'') s"

definition HawaiianPizzaBuilder_buildSauce :: "addr \<Rightarrow> world \<Rightarrow> error + world" where
  "HawaiianPizzaBuilder_buildSauce this s = m_pizza_arrow this (setSauce ''mild'') s"

definition HawaiianPizzaBuilder_buildTopping :: "addr \<Rightarrow> world \<Rightarrow> error + world" where
  "HawaiianPizzaBuilder_buildTopping this s =
     m_pizza_arrow this (setTopping ''ham+pineapple'') s"

definition SpicyPizzaBuilder_buildDough :: "addr \<Rightarrow> world \<Rightarrow> error + world" where
  "SpicyPizzaBuilder_buildDough this s = m_pizza_arrow this (setDough ''pan baked'') s"

definition SpicyPizzaBuilder_buildSauce :: "addr \<Rightarrow> world \<Rightarrow> error + world" where
  "SpicyPizzaBuilder_buildSauce this s = m_pizza_arrow this (setSauce ''hot'') s"

definition SpicyPizzaBuilder_buildTopping :: "addr \<Rightarrow> world \<Rightarrow> error + world" where
  "SpicyPizzaBuilder_buildTopping this s =
     m_pizza_arrow this (setTopping ''pepperoni+salami'') s"

text \<open>
  The three pure virtual functions of \<^verbatim>\<open>PizzaBuilder\<close>: a call through a pointer to a
  builder runs the override of the class of the object it points to.
\<close>

definition buildDough :: "addr \<Rightarrow> world \<Rightarrow> error + world" where
  "buildDough this s =
     (case heap_get (builder_heap s) this of
        None \<Rightarrow> Inl InvalidPointer
      | Some b \<Rightarrow>
          (case builder_class b of
             HawaiianPizzaBuilder \<Rightarrow>
               HawaiianPizzaBuilder_buildDough this (log_call (Call_buildDough this) s)
           | SpicyPizzaBuilder \<Rightarrow>
               SpicyPizzaBuilder_buildDough this (log_call (Call_buildDough this) s)))"

definition buildSauce :: "addr \<Rightarrow> world \<Rightarrow> error + world" where
  "buildSauce this s =
     (case heap_get (builder_heap s) this of
        None \<Rightarrow> Inl InvalidPointer
      | Some b \<Rightarrow>
          (case builder_class b of
             HawaiianPizzaBuilder \<Rightarrow>
               HawaiianPizzaBuilder_buildSauce this (log_call (Call_buildSauce this) s)
           | SpicyPizzaBuilder \<Rightarrow>
               SpicyPizzaBuilder_buildSauce this (log_call (Call_buildSauce this) s)))"

definition buildTopping :: "addr \<Rightarrow> world \<Rightarrow> error + world" where
  "buildTopping this s =
     (case heap_get (builder_heap s) this of
        None \<Rightarrow> Inl InvalidPointer
      | Some b \<Rightarrow>
          (case builder_class b of
             HawaiianPizzaBuilder \<Rightarrow>
               HawaiianPizzaBuilder_buildTopping this (log_call (Call_buildTopping this) s)
           | SpicyPizzaBuilder \<Rightarrow>
               SpicyPizzaBuilder_buildTopping this (log_call (Call_buildTopping this) s)))"

definition openPizza :: "Cook \<Rightarrow> world \<Rightarrow> error + world" where
  "openPizza cook s =
     (case m_pizzaBuilder cook of
        None \<Rightarrow> Inl InvalidPointer
      | Some pb \<Rightarrow>
          and_then (getPizza pb s) (\<lambda>(p, s1).
            case p of
              None \<Rightarrow> Inl NullPointer
            | Some a \<Rightarrow>
                (case heap_get (pizza_heap s1) a of
                   None \<Rightarrow> Inl InvalidPointer
                 | Some pizza \<Rightarrow> Inr (Pizza_open pizza s1))))"

definition makePizza :: "Cook \<Rightarrow> addr \<Rightarrow> world \<Rightarrow> error + (Cook \<times> world)" where
  "makePizza cook pb s =
     (let cook1 = cook\<lparr>m_pizzaBuilder := Some pb\<rparr> in
      and_then (createNewPizzaProduct pb s) (\<lambda>s1.
      and_then (buildDough pb s1) (\<lambda>s2.
      and_then (buildSauce pb s2) (\<lambda>s3.
      and_then (buildTopping pb s3) (\<lambda>s4.
      Inr (cook1, s4))))))"

section \<open>Factory method\<close>

text \<open>
  \<^verbatim>\<open>strcpy(name, fn)\<close> writes the characters of \<open>fn\<close> and a terminating NUL into the 20
  bytes of \<open>name\<close>; with 20 characters or more it writes past the array.
\<close>

definition Document_ctor :: "Document_class \<Rightarrow> string \<Rightarrow> error + Document" where
  "Document_ctor c fn =
     (if length fn < 20 then Inr \<lparr>document_class = c, name = fn\<rparr> else Inl BufferOverflow)"

definition MyDocument_ctor :: "string \<Rightarrow> error + Document" where
  "MyDocument_ctor fn = Document_ctor MyDocument fn"

definition MyDocument_Open :: "world \<Rightarrow> world" where
  "MyDocument_Open s = print (''   MyDocument: Open()'' @ endl) s"

definition MyDocument_Close :: "world \<Rightarrow> world" where
  "MyDocument_Close s = print (''   MyDocument: Close()'' @ endl) s"

definition Document_Open :: "addr \<Rightarrow> world \<Rightarrow> error + world" where
  "Document_Open this s =
     (case heap_get (document_heap s) this of
        None \<Rightarrow> Inl InvalidPointer
      | Some d \<Rightarrow>
          (case document_class d of
             MyDocument \<Rightarrow> Inr (MyDocument_Open (log_call (Call_Open this) s))))"

definition Document_Close :: "addr \<Rightarrow> world \<Rightarrow> error + world" where
  "Document_Close this s =
     (case heap_get (document_heap s) this of
        None \<Rightarrow> Inl InvalidPointer
      | Some d \<Rightarrow>
          (case document_class d of
             MyDocument \<Rightarrow> Inr (MyDocument_Close (log_call (Call_Close this) s))))"

definition GetName :: "addr \<Rightarrow> world \<Rightarrow> error + (string \<times> world)" where
  "GetName this s =
     (case heap_get (document_heap s) this of
        None \<Rightarrow> Inl InvalidPointer
      | Some d \<Rightarrow> Inr (name d, log_call (Call_GetName this) s))"

definition Application_ctor :: "Application_class \<Rightarrow> world \<Rightarrow> Application \<times> world" where
  "Application_ctor c s =
     (\<lparr>application_class = c, m_index = 0, m_docs = replicate 10 None\<rparr>,
      print (''Application: ctor'' @ endl) s)"

definition MyApplication_ctor :: "world \<Rightarrow> Application \<times> world" where
  "MyApplication_ctor s =
     (let (app, s1) = Application_ctor MyApplication s
      in (app, print (''MyApplication: ctor'' @ endl) s1))"

definition MyApplication_CreateDocument :: "string \<Rightarrow> world \<Rightarrow> error + (addr \<times> world)" where
  "MyApplication_CreateDocument fn s =
     (let s1 = print (''   MyApplication: CreateDocument()'' @ endl) s in
      and_then (MyDocument_ctor fn) (\<lambda>d.
        let (a, h) = heap_new d (document_heap s1) in Inr (a, s1\<lparr>document_heap := h\<rparr>)))"

text \<open>The pure virtual hook of \<^verbatim>\<open>Application\<close>, dispatched on the application's class.\<close>

definition CreateDocument :: "Application \<Rightarrow> string \<Rightarrow> world \<Rightarrow> error + (addr \<times> world)" where
  "CreateDocument this fn s =
     (case application_class this of
        MyApplication \<Rightarrow> MyApplication_CreateDocument fn (log_call (Call_CreateDocument fn) s))"

text \<open>
  \<^verbatim>\<open>_docs[_index] = CreateDocument(name); _docs[_index++]->Open();\<close> The hook runs
  first, then its result is stored in slot \<open>_index\<close>; the second statement reads the
  slot back, increments \<open>_index\<close> and calls \<^verbatim>\<open>Open\<close> on what it read.
\<close>

definition NewDocument :: "Application \<Rightarrow> string \<Rightarrow> world \<Rightarrow> error + (Application \<times> world)" where
  "NewDocument this nm s =
     (let s0 = print (''Application: NewDocument()'' @ endl) s in
      and_then (CreateDocument this nm s0) (\<lambda>(d, s1).
        if \<not> (0 \<le> m_index this \<and> m_index this < 10) then Inl IndexOutOfBounds
        else
          let this1 = this\<lparr>m_docs := (m_docs this)[nat (m_index this) := Some d]\<rparr>;
              p = m_docs this1 ! nat (m_index this1);
              this2 = this1\<lparr>m_index := m_index this1 + 1\<rparr>
          in case p of
               None \<Rightarrow> Inl InvalidPointer
             | Some a \<Rightarrow> and_then (Document_Open a s1) (\<lambda>s2. Inr (this2, s2))))"

definition OpenDocument :: "Application \<Rightarrow> world \<Rightarrow> Application \<times> world" where
  "OpenDocument this s = (this, s)"

text \<open>The loop \<^verbatim>\<open>for (int i = 0; i < _index; i++) cout << "   " << _docs[i]->GetName() << endl;\<close>\<close>

function ReportDocs_loop :: "Application \<Rightarrow> int \<Rightarrow> world \<Rightarrow> error + world" where
  "ReportDocs_loop this i s =
     (if i < m_index this then
        (if \<not> (0 \<le> i \<and> i < 10) then Inl IndexOutOfBounds
         else case m_docs this ! nat i of
                None \<Rightarrow> Inl InvalidPointer
              | Some a \<Rightarrow>
                  and_then (GetName a s) (\<lambda>(nm, s1).
                    ReportDocs_loop this (i + 1) (print (''   '' @ nm @ endl) s1)))
      else Inr s)"
  by pat_completeness auto
termination
  by (relation "measure (\<lambda>(this, i, s). nat (m_index this - i))") auto

definition ReportDocs :: "Application \<Rightarrow> world \<Rightarrow> error + world" where
  "ReportDocs this s = ReportDocs_loop this 0 (print (''Application: ReportDocs()'' @ endl) s)"

section \<open>Abstract factory\<close>

text \<open>
  \<^verbatim>\<open>id_ = total_++;\<close> on a 32-bit \<^verbatim>\<open>int\<close>. The sum is the machine's: at \<open>2\<^sup>3\<^sup>1 - 1\<close> the
  increment wraps to \<open>- 2\<^sup>3\<^sup>1\<close> (ISO C++ gives that one increment no meaning at all).
\<close>

definition Shape_ctor :: "Shape_class \<Rightarrow> world \<Rightarrow> Shape \<times> world" where
  "Shape_ctor c s =
     (\<lparr>shape_class = c, shape_id = shape_total s\<rparr>, s\<lparr>shape_total := shape_total s + 1\<rparr>)"

text \<open>\<^verbatim>\<open>new Circle\<close>, \<^verbatim>\<open>new Square\<close>, ...: the constructor runs and the object enters the store.\<close>

definition new_Shape :: "Shape_class \<Rightarrow> world \<Rightarrow> addr \<times> world" where
  "new_Shape c s =
     (let (sh, s1) = Shape_ctor c s;
          (a, h) = heap_new sh (shape_heap s1)
      in (a, s1\<lparr>shape_heap := h\<rparr>))"

text \<open>\<^verbatim>\<open>cout << id_\<close> writes an \<^verbatim>\<open>int\<close> in decimal, with a minus sign when it is negative.\<close>

function string_of_nat :: "nat \<Rightarrow> string" where
  "string_of_nat n =
     (if n < 10 then [''0123456789'' ! n]
      else string_of_nat (n div 10) @ [''0123456789'' ! (n mod 10)])"
  by pat_completeness auto
termination
  by (relation "measure id") auto

definition string_of_int :: "int \<Rightarrow> string" where
  "string_of_int i =
     (if i < 0 then CHR ''-'' # string_of_nat (nat (- i)) else string_of_nat (nat i))"

definition Circle_draw :: "Shape \<Rightarrow> world \<Rightarrow> world" where
  "Circle_draw this s =
     print (''circle '' @ string_of_int (sint (shape_id this)) @ '': draw'' @ endl) s"

definition Square_draw :: "Shape \<Rightarrow> world \<Rightarrow> world" where
  "Square_draw this s =
     print (''square '' @ string_of_int (sint (shape_id this)) @ '': draw'' @ endl) s"

definition Ellipse_draw :: "Shape \<Rightarrow> world \<Rightarrow> world" where
  "Ellipse_draw this s =
     print (''ellipse '' @ string_of_int (sint (shape_id this)) @ '': draw'' @ endl) s"

definition Rectangle_draw :: "Shape \<Rightarrow> world \<Rightarrow> world" where
  "Rectangle_draw this s =
     print (''rectangle '' @ string_of_int (sint (shape_id this)) @ '': draw'' @ endl) s"

definition draw :: "addr \<Rightarrow> world \<Rightarrow> error + world" where
  "draw this s =
     (case heap_get (shape_heap s) this of
        None \<Rightarrow> Inl InvalidPointer
      | Some sh \<Rightarrow>
          (case shape_class sh of
             Circle \<Rightarrow> Inr (Circle_draw sh s)
           | Square \<Rightarrow> Inr (Square_draw sh s)
           | Ellipse \<Rightarrow> Inr (Ellipse_draw sh s)
           | Rectangle \<Rightarrow> Inr (Rectangle_draw sh s)))"

definition SimpleShapeFactory_createCurvedInstance :: "world \<Rightarrow> addr \<times> world" where
  "SimpleShapeFactory_createCurvedInstance s = new_Shape Circle s"

definition SimpleShapeFactory_createStraightInstance :: "world \<Rightarrow> addr \<times> world" where
  "SimpleShapeFactory_createStraightInstance s = new_Shape Square s"

definition RobustShapeFactory_createCurvedInstance :: "world \<Rightarrow> addr \<times> world" where
  "RobustShapeFactory_createCurvedInstance s = new_Shape Ellipse s"

definition RobustShapeFactory_createStraightInstance :: "world \<Rightarrow> addr \<times> world" where
  "RobustShapeFactory_createStraightInstance s = new_Shape Rectangle s"

definition createCurvedInstance :: "Factory \<Rightarrow> world \<Rightarrow> addr \<times> world" where
  "createCurvedInstance this s =
     (case this of
        SimpleShapeFactory \<Rightarrow> SimpleShapeFactory_createCurvedInstance s
      | RobustShapeFactory \<Rightarrow> RobustShapeFactory_createCurvedInstance s)"

definition createStraightInstance :: "Factory \<Rightarrow> world \<Rightarrow> addr \<times> world" where
  "createStraightInstance this s =
     (case this of
        SimpleShapeFactory \<Rightarrow> SimpleShapeFactory_createStraightInstance s
      | RobustShapeFactory \<Rightarrow> RobustShapeFactory_createStraightInstance s)"

section \<open>The program\<close>

text \<open>The loop \<^verbatim>\<open>for (int i=0; i < 3; i++) shapes[i]->draw();\<close> over \<^verbatim>\<open>Shape* shapes[3]\<close>.\<close>

function draw_loop :: "addr list \<Rightarrow> int \<Rightarrow> world \<Rightarrow> error + world" where
  "draw_loop shapes i s =
     (if i < 3 then
        (if \<not> (0 \<le> i \<and> nat i < length shapes) then Inl IndexOutOfBounds
         else and_then (draw (shapes ! nat i) s) (\<lambda>s1. draw_loop shapes (i + 1) s1))
      else Inr s)"
  by pat_completeness auto
termination
  by (relation "measure (\<lambda>(shapes, i, s). nat (3 - i))") auto

text \<open>
  A builder that goes out of scope: its \<^verbatim>\<open>unique_ptr\<close> destroys the pizza it owns, and
  the builder is gone.
\<close>

definition PizzaBuilder_dtor :: "addr \<Rightarrow> world \<Rightarrow> error + world" where
  "PizzaBuilder_dtor this s =
     (case heap_get (builder_heap s) this of
        None \<Rightarrow> Inl InvalidPointer
      | Some b \<Rightarrow>
          (let s1 = s\<lparr>builder_heap := heap_delete this (builder_heap s)\<rparr>
           in case m_pizza b of
                None \<Rightarrow> Inr s1
              | Some a \<Rightarrow>
                  (case heap_get (pizza_heap s1) a of
                     None \<Rightarrow> Inl InvalidPointer
                   | Some p \<Rightarrow> Inr (s1\<lparr>pizza_heap := heap_delete a (pizza_heap s1)\<rparr>))))"

text \<open>
  \<^verbatim>\<open>int main()\<close>. Its local objects \<^verbatim>\<open>hawaiianPizzaBuilder\<close> and \<^verbatim>\<open>spicyPizzaBuilder\<close>,
  whose addresses it passes on, enter the store where they are declared and leave it,
  in reverse order, at the closing brace. The documents, the shapes and the factory are
  never deleted.
\<close>

definition main :: "world \<Rightarrow> error + (int \<times> world)" where
  "main s =
     (let s1 = print (endl @ ''----------------BUILDER ---------------------------'' @ endl) s;
          cook = \<lparr>m_pizzaBuilder = None\<rparr>;
          (hawaiianPizzaBuilder, h1) =
             heap_new \<lparr>builder_class = HawaiianPizzaBuilder, m_pizza = None\<rparr> (builder_heap s1);
          s2 = s1\<lparr>builder_heap := h1\<rparr>;
          (spicyPizzaBuilder, h2) =
             heap_new \<lparr>builder_class = SpicyPizzaBuilder, m_pizza = None\<rparr> (builder_heap s2);
          s3 = s2\<lparr>builder_heap := h2\<rparr>
      in
      and_then (makePizza cook hawaiianPizzaBuilder s3) (\<lambda>(cook1, s4).
      and_then (openPizza cook1 s4) (\<lambda>s5.
      and_then (makePizza cook1 spicyPizzaBuilder s5) (\<lambda>(cook2, s6).
      and_then (openPizza cook2 s6) (\<lambda>s7.
      let s8 = print (endl @ ''----------------FACTORY METHOD ---------------------------''
                      @ endl) s7;
          (myApp, s9) = MyApplication_ctor s8
      in
      and_then (NewDocument myApp ''foo'' s9) (\<lambda>(myApp1, s10).
      and_then (NewDocument myApp1 ''bar'' s10) (\<lambda>(myApp2, s11).
      and_then (ReportDocs myApp2 s11) (\<lambda>s12.
      let s13 = print (endl @ ''----------------ABSTRACT FACTORY ---------------------------''
                       @ endl) s12;
          factory = SimpleShapeFactory;
          (shapes0, s14) = createCurvedInstance factory s13;
          (shapes1, s15) = createStraightInstance factory s14;
          (shapes2, s16) = createCurvedInstance factory s15
      in
      and_then (draw_loop [shapes0, shapes1, shapes2] 0 s16) (\<lambda>s17.
      and_then (PizzaBuilder_dtor spicyPizzaBuilder s17) (\<lambda>s18.
      and_then (PizzaBuilder_dtor hawaiianPizzaBuilder s18) (\<lambda>s19.
      Inr (0, s19))))))))))))"

text \<open>
  A process is started with an argument vector and an environment. \<^verbatim>\<open>main\<close> declares no
  parameters, and nothing in the source reads the environment, a file or the standard
  input: a run is \<^verbatim>\<open>main\<close> on the initial state, whatever the process was given.
\<close>

definition run :: "string list \<Rightarrow> string list \<Rightarrow> error + (int \<times> world)" where
  "run argv envp = main initial"

section \<open>Well-formed objects and clients\<close>

text \<open>
  What a \<^verbatim>\<open>unique_ptr\<close> guarantees of the builder that holds it: it is null or it owns
  a pizza that exists.
\<close>

definition owns_live :: "world \<Rightarrow> PizzaBuilder \<Rightarrow> bool" where
  "owns_live s b =
     (case m_pizza b of None \<Rightarrow> True | Some a \<Rightarrow> heap_get (pizza_heap s) a \<noteq> None)"

text \<open>A client that calls \<^verbatim>\<open>NewDocument\<close> once for each name of a list, in order.\<close>

fun NewDocuments :: "Application \<Rightarrow> string list \<Rightarrow> world \<Rightarrow> error + (Application \<times> world)" where
  "NewDocuments this [] s = Inr (this, s)"
| "NewDocuments this (nm # nms) s =
     and_then (NewDocument this nm s) (\<lambda>(this1, s1). NewDocuments this1 nms s1)"

text \<open>
  The registry of an application: the documents that its slots \<open>0\<close> to \<open>_index - 1\<close>
  point to, in that order.
\<close>

definition registry :: "Application \<Rightarrow> world \<Rightarrow> Document option list" where
  "registry this s =
     map (\<lambda>p. case p of None \<Rightarrow> None | Some a \<Rightarrow> heap_get (document_heap s) a)
         (take (nat (m_index this)) (m_docs this))"

text \<open>A client that constructs one shape of each class of a list, in order.\<close>

fun Shape_ctors :: "Shape_class list \<Rightarrow> world \<Rightarrow> Shape list \<times> world" where
  "Shape_ctors [] s = ([], s)"
| "Shape_ctors (c # cs) s =
     (let (sh, s1) = Shape_ctor c s;
          (shs, s2) = Shape_ctors cs s1
      in (sh # shs, s2))"

text \<open>
  A client of the classes: any sequence of calls of their member functions, of
  constructions and of destructions, with any arguments. A step returns the shapes
  that it has constructed; what else a call returns to its caller (a pointer, a name,
  the receiver as the call leaves it) is the caller's to keep and is dropped here.
\<close>

datatype operation =
    Do_Pizza_open Pizza
  | Do_getPizza addr
  | Do_createNewPizzaProduct addr
  | Do_buildDough addr
  | Do_buildSauce addr
  | Do_buildTopping addr
  | Do_PizzaBuilder_dtor addr
  | Do_openPizza Cook
  | Do_makePizza Cook addr
  | Do_Document_Open addr
  | Do_Document_Close addr
  | Do_GetName addr
  | Do_MyApplication_ctor
  | Do_CreateDocument Application string
  | Do_NewDocument Application string
  | Do_OpenDocument Application
  | Do_ReportDocs Application
  | Do_new_Shape Shape_class
  | Do_createCurvedInstance Factory
  | Do_createStraightInstance Factory
  | Do_draw addr

definition constructed :: "addr \<Rightarrow> world \<Rightarrow> Shape list" where
  "constructed a s = (case heap_get (shape_heap s) a of None \<Rightarrow> [] | Some sh \<Rightarrow> [sh])"

fun perform :: "operation \<Rightarrow> world \<Rightarrow> error + (Shape list \<times> world)" where
  "perform (Do_Pizza_open p) s = Inr ([], Pizza_open p s)"
| "perform (Do_getPizza pb) s = and_then (getPizza pb s) (\<lambda>(p, s1). Inr ([], s1))"
| "perform (Do_createNewPizzaProduct pb) s =
     and_then (createNewPizzaProduct pb s) (\<lambda>s1. Inr ([], s1))"
| "perform (Do_buildDough pb) s = and_then (buildDough pb s) (\<lambda>s1. Inr ([], s1))"
| "perform (Do_buildSauce pb) s = and_then (buildSauce pb s) (\<lambda>s1. Inr ([], s1))"
| "perform (Do_buildTopping pb) s = and_then (buildTopping pb s) (\<lambda>s1. Inr ([], s1))"
| "perform (Do_PizzaBuilder_dtor pb) s =
     and_then (PizzaBuilder_dtor pb s) (\<lambda>s1. Inr ([], s1))"
| "perform (Do_openPizza cook) s = and_then (openPizza cook s) (\<lambda>s1. Inr ([], s1))"
| "perform (Do_makePizza cook pb) s =
     and_then (makePizza cook pb s) (\<lambda>(cook1, s1). Inr ([], s1))"
| "perform (Do_Document_Open d) s = and_then (Document_Open d s) (\<lambda>s1. Inr ([], s1))"
| "perform (Do_Document_Close d) s = and_then (Document_Close d s) (\<lambda>s1. Inr ([], s1))"
| "perform (Do_GetName d) s = and_then (GetName d s) (\<lambda>(nm, s1). Inr ([], s1))"
| "perform Do_MyApplication_ctor s = (let (app, s1) = MyApplication_ctor s in Inr ([], s1))"
| "perform (Do_CreateDocument app nm) s =
     and_then (CreateDocument app nm s) (\<lambda>(d, s1). Inr ([], s1))"
| "perform (Do_NewDocument app nm) s =
     and_then (NewDocument app nm s) (\<lambda>(app1, s1). Inr ([], s1))"
| "perform (Do_OpenDocument app) s = (let (app1, s1) = OpenDocument app s in Inr ([], s1))"
| "perform (Do_ReportDocs app) s = and_then (ReportDocs app s) (\<lambda>s1. Inr ([], s1))"
| "perform (Do_new_Shape c) s = (let (a, s1) = new_Shape c s in Inr (constructed a s1, s1))"
| "perform (Do_createCurvedInstance f) s =
     (let (a, s1) = createCurvedInstance f s in Inr (constructed a s1, s1))"
| "perform (Do_createStraightInstance f) s =
     (let (a, s1) = createStraightInstance f s in Inr (constructed a s1, s1))"
| "perform (Do_draw a) s = and_then (draw a s) (\<lambda>s1. Inr ([], s1))"

fun perform_all :: "operation list \<Rightarrow> world \<Rightarrow> error + (Shape list \<times> world)" where
  "perform_all [] s = Inr ([], s)"
| "perform_all (op # ops) s =
     and_then (perform op s) (\<lambda>(shs1, s1).
     and_then (perform_all ops s1) (\<lambda>(shs2, s2).
     Inr (shs1 @ shs2, s2)))"

section \<open>Facts about the store and about results\<close>

text \<open>The equations of the three loops are unfolded by hand, one iteration at a time.\<close>

declare ReportDocs_loop.simps [simp del]
declare draw_loop.simps [simp del]
declare string_of_nat.simps [simp del]

lemma and_then_Inr [simp]: "and_then (Inr x) f = f x"
  by (simp add: and_then_def)

lemma and_then_Inl [simp]: "and_then (Inl e) f = Inl e"
  by (simp add: and_then_def)

lemma heap_get_append [simp]:
  "heap_get (h @ [v]) a = (if a = length h then v else heap_get h a)"
  by (auto simp: heap_get_def nth_append)

lemma heap_get_put [simp]:
  "heap_get (heap_put a x h) b =
     (if b = a then (if a < length h then Some x else None) else heap_get h b)"
  by (auto simp: heap_get_def heap_put_def)

lemma heap_get_delete [simp]:
  "heap_get (heap_delete a h) b = (if b = a then None else heap_get h b)"
  by (auto simp: heap_get_def heap_delete_def)

lemma heap_get_Some_less: "heap_get h a = Some x \<Longrightarrow> a < length h"
  by (auto simp: heap_get_def split: if_splits)

lemma heap_get_length [simp]: "heap_get h (length h) = None"
  by (simp add: heap_get_def)

lemma heap_put_new [simp]: "heap_put (length h) x (h @ [y]) = h @ [Some x]"
  by (simp add: heap_put_def)

lemma heap_put_delete_new [simp]:
  "old < length h \<Longrightarrow>
   heap_put (length h) x (heap_delete old (h @ [y])) = heap_delete old (h @ [Some x])"
  by (simp add: heap_put_def heap_delete_def list_update_append)

lemma length_heap_put [simp]: "length (heap_put a x h) = length h"
  by (simp add: heap_put_def)

lemma length_heap_delete [simp]: "length (heap_delete a h) = length h"
  by (simp add: heap_delete_def)

lemma and_then_eq_Inr:
  "and_then m f = Inr y \<longleftrightarrow> (\<exists>x. m = Inr x \<and> f x = Inr y)"
  by (cases m) simp_all

section \<open>Builder: what each member function returns\<close>

lemma m_pizza_arrow_result:
  assumes "heap_get (builder_heap s) pb = Some b" and "m_pizza b = Some a"
    and "heap_get (pizza_heap s) a = Some p"
  shows "m_pizza_arrow pb f s = Inr (s\<lparr>pizza_heap := heap_put a (f p) (pizza_heap s)\<rparr>)"
  using assms by (simp add: m_pizza_arrow_def)

lemma buildDough_result:
  assumes "heap_get (builder_heap s) pb = Some b" and "m_pizza b = Some a"
    and "heap_get (pizza_heap s) a = Some p"
  shows "buildDough pb s =
    Inr (s\<lparr>pizza_heap := heap_put a
              (p\<lparr>m_dough := (case builder_class b of
                   HawaiianPizzaBuilder \<Rightarrow> ''cross'' | SpicyPizzaBuilder \<Rightarrow> ''pan baked'')\<rparr>)
              (pizza_heap s),
           calls := calls s @ [Call_buildDough pb]\<rparr>)"
  using assms
  by (cases "builder_class b")
     (simp_all add: buildDough_def HawaiianPizzaBuilder_buildDough_def
        SpicyPizzaBuilder_buildDough_def m_pizza_arrow_result [where b = b and a = a and p = p]
        log_call_def setDough_def)

lemma buildSauce_result:
  assumes "heap_get (builder_heap s) pb = Some b" and "m_pizza b = Some a"
    and "heap_get (pizza_heap s) a = Some p"
  shows "buildSauce pb s =
    Inr (s\<lparr>pizza_heap := heap_put a
              (p\<lparr>m_sauce := (case builder_class b of
                   HawaiianPizzaBuilder \<Rightarrow> ''mild'' | SpicyPizzaBuilder \<Rightarrow> ''hot'')\<rparr>)
              (pizza_heap s),
           calls := calls s @ [Call_buildSauce pb]\<rparr>)"
  using assms
  by (cases "builder_class b")
     (simp_all add: buildSauce_def HawaiianPizzaBuilder_buildSauce_def
        SpicyPizzaBuilder_buildSauce_def m_pizza_arrow_result [where b = b and a = a and p = p]
        log_call_def setSauce_def)

lemma buildTopping_result:
  assumes "heap_get (builder_heap s) pb = Some b" and "m_pizza b = Some a"
    and "heap_get (pizza_heap s) a = Some p"
  shows "buildTopping pb s =
    Inr (s\<lparr>pizza_heap := heap_put a
              (p\<lparr>m_topping := (case builder_class b of
                   HawaiianPizzaBuilder \<Rightarrow> ''ham+pineapple''
                 | SpicyPizzaBuilder \<Rightarrow> ''pepperoni+salami'')\<rparr>)
              (pizza_heap s),
           calls := calls s @ [Call_buildTopping pb]\<rparr>)"
  using assms
  by (cases "builder_class b")
     (simp_all add: buildTopping_def HawaiianPizzaBuilder_buildTopping_def
        SpicyPizzaBuilder_buildTopping_def m_pizza_arrow_result [where b = b and a = a and p = p]
        log_call_def setTopping_def)

lemma createNewPizzaProduct_result:
  assumes "heap_get (builder_heap s) pb = Some b" and "owns_live s b"
  shows "createNewPizzaProduct pb s =
    Inr (s\<lparr>pizza_heap := (case m_pizza b of None \<Rightarrow> id | Some old \<Rightarrow> heap_delete old)
                 (pizza_heap s @ [Some \<lparr>m_dough = [], m_sauce = [], m_topping = []\<rparr>]),
           builder_heap := heap_put pb (b\<lparr>m_pizza := Some (length (pizza_heap s))\<rparr>) (builder_heap s),
           calls := calls s @ [Call_createNewPizzaProduct pb]\<rparr>)"
  using assms
  by (auto simp: createNewPizzaProduct_def owns_live_def log_call_def heap_new_def
      dest: heap_get_Some_less split: option.splits)

lemma makePizza_result:
  assumes b: "heap_get (builder_heap s) pb = Some b" and live: "owns_live s b"
  shows "makePizza cook pb s =
    Inr (cook\<lparr>m_pizzaBuilder := Some pb\<rparr>,
         s\<lparr>pizza_heap := (case m_pizza b of None \<Rightarrow> id | Some old \<Rightarrow> heap_delete old)
                 (pizza_heap s @ [Some (case builder_class b of
                    HawaiianPizzaBuilder \<Rightarrow>
                      \<lparr>m_dough = ''cross'', m_sauce = ''mild'', m_topping = ''ham+pineapple''\<rparr>
                  | SpicyPizzaBuilder \<Rightarrow>
                      \<lparr>m_dough = ''pan baked'', m_sauce = ''hot'',
                       m_topping = ''pepperoni+salami''\<rparr>)]),
           builder_heap := heap_put pb (b\<lparr>m_pizza := Some (length (pizza_heap s))\<rparr>) (builder_heap s),
           calls := calls s @ [Call_createNewPizzaProduct pb, Call_buildDough pb,
                               Call_buildSauce pb, Call_buildTopping pb]\<rparr>)"
proof -
  let ?a = "length (pizza_heap s)"
  let ?b = "b\<lparr>m_pizza := Some ?a\<rparr>"
  let ?del = "case m_pizza b of None \<Rightarrow> id | Some old \<Rightarrow> heap_delete old"
  have pb: "pb < length (builder_heap s)"
    using b by (rule heap_get_Some_less)
  have old: "\<And>old. m_pizza b = Some old \<Longrightarrow> old < ?a"
    using live by (auto simp: owns_live_def heap_get_def split: if_splits)
  have put: "\<And>x y. heap_put ?a x (?del (pizza_heap s @ [y])) = ?del (pizza_heap s @ [Some x])"
    using old by (cases "m_pizza b") simp_all
  have get: "\<And>y. heap_get (?del (pizza_heap s @ [y])) ?a = y"
    using old by (cases "m_pizza b") auto
  obtain s1 where s1: "createNewPizzaProduct pb s = Inr s1"
    and s1_def: "s1 = s\<lparr>pizza_heap := ?del (pizza_heap s @ [Some \<lparr>m_dough = [], m_sauce = [], m_topping = []\<rparr>]),
           builder_heap := heap_put pb ?b (builder_heap s),
           calls := calls s @ [Call_createNewPizzaProduct pb]\<rparr>"
    using createNewPizzaProduct_result [OF b live] by simp
  have b1: "heap_get (builder_heap s1) pb = Some ?b"
    using pb by (simp add: s1_def)
  have p1: "heap_get (pizza_heap s1) ?a = Some \<lparr>m_dough = [], m_sauce = [], m_topping = []\<rparr>"
    by (simp add: s1_def get)
  obtain s2 where s2: "buildDough pb s1 = Inr s2"
    and s2_def: "s2 = s1\<lparr>pizza_heap := heap_put ?a
              (\<lparr>m_dough = (case builder_class b of
                   HawaiianPizzaBuilder \<Rightarrow> ''cross'' | SpicyPizzaBuilder \<Rightarrow> ''pan baked''),
                m_sauce = [], m_topping = []\<rparr>) (pizza_heap s1),
           calls := calls s1 @ [Call_buildDough pb]\<rparr>"
    using buildDough_result [OF b1 _ p1] by simp
  have b2: "heap_get (builder_heap s2) pb = Some ?b"
    using b1 by (simp add: s2_def)
  have p2: "heap_get (pizza_heap s2) ?a = Some \<lparr>m_dough = (case builder_class b of
                   HawaiianPizzaBuilder \<Rightarrow> ''cross'' | SpicyPizzaBuilder \<Rightarrow> ''pan baked''),
                m_sauce = [], m_topping = []\<rparr>"
    by (simp add: s2_def s1_def put get)
  obtain s3 where s3: "buildSauce pb s2 = Inr s3"
    and s3_def: "s3 = s2\<lparr>pizza_heap := heap_put ?a
              (\<lparr>m_dough = (case builder_class b of
                   HawaiianPizzaBuilder \<Rightarrow> ''cross'' | SpicyPizzaBuilder \<Rightarrow> ''pan baked''),
                m_sauce = (case builder_class b of
                   HawaiianPizzaBuilder \<Rightarrow> ''mild'' | SpicyPizzaBuilder \<Rightarrow> ''hot''),
                m_topping = []\<rparr>) (pizza_heap s2),
           calls := calls s2 @ [Call_buildSauce pb]\<rparr>"
    using buildSauce_result [OF b2 _ p2] by simp
  have b3: "heap_get (builder_heap s3) pb = Some ?b"
    using b2 by (simp add: s3_def)
  have p3: "heap_get (pizza_heap s3) ?a = Some \<lparr>m_dough = (case builder_class b of
                   HawaiianPizzaBuilder \<Rightarrow> ''cross'' | SpicyPizzaBuilder \<Rightarrow> ''pan baked''),
                m_sauce = (case builder_class b of
                   HawaiianPizzaBuilder \<Rightarrow> ''mild'' | SpicyPizzaBuilder \<Rightarrow> ''hot''),
                m_topping = []\<rparr>"
    by (simp add: s3_def s2_def s1_def put get)
  have s4: "buildTopping pb s3 = Inr (s3\<lparr>pizza_heap := heap_put ?a
              (\<lparr>m_dough = (case builder_class b of
                   HawaiianPizzaBuilder \<Rightarrow> ''cross'' | SpicyPizzaBuilder \<Rightarrow> ''pan baked''),
                m_sauce = (case builder_class b of
                   HawaiianPizzaBuilder \<Rightarrow> ''mild'' | SpicyPizzaBuilder \<Rightarrow> ''hot''),
                m_topping = (case builder_class b of
                   HawaiianPizzaBuilder \<Rightarrow> ''ham+pineapple''
                 | SpicyPizzaBuilder \<Rightarrow> ''pepperoni+salami'')\<rparr>) (pizza_heap s3),
           calls := calls s3 @ [Call_buildTopping pb]\<rparr>)"
    using buildTopping_result [OF b3 _ p3] by simp
  show ?thesis
    unfolding makePizza_def Let_def
    by (cases "builder_class b") (simp_all add: s1 s2 s3 s4, simp_all add: s3_def s2_def s1_def put)
qed

lemma makePizza_sequence:
  "makePizza cook pb s =
     and_then (createNewPizzaProduct pb s) (\<lambda>s1.
     and_then (buildDough pb s1) (\<lambda>s2.
     and_then (buildSauce pb s2) (\<lambda>s3.
     and_then (buildTopping pb s3) (\<lambda>s4.
     Inr (cook\<lparr>m_pizzaBuilder := Some pb\<rparr>, s4)))))"
  by (simp add: makePizza_def)

lemma makePizza_effect:
  assumes "heap_get (builder_heap s) pb = Some b" and "owns_live s b"
  shows "\<exists>s'. makePizza cook pb s = Inr (cook\<lparr>m_pizzaBuilder := Some pb\<rparr>, s') \<and>
           length (pizza_heap s') = Suc (length (pizza_heap s)) \<and>
           (\<forall>x. heap_get (pizza_heap s') x =
              (if x = length (pizza_heap s) then
                 Some (case builder_class b of
                     HawaiianPizzaBuilder \<Rightarrow>
                       \<lparr>m_dough = ''cross'', m_sauce = ''mild'', m_topping = ''ham+pineapple''\<rparr>
                   | SpicyPizzaBuilder \<Rightarrow>
                       \<lparr>m_dough = ''pan baked'', m_sauce = ''hot'',
                        m_topping = ''pepperoni+salami''\<rparr>)
               else if m_pizza b = Some x then None else heap_get (pizza_heap s) x)) \<and>
           (\<forall>q. heap_get (builder_heap s') q =
              (if q = pb then Some (b\<lparr>m_pizza := Some (length (pizza_heap s))\<rparr>)
               else heap_get (builder_heap s) q))"
proof -
  have pb: "pb < length (builder_heap s)"
    using assms(1) by (rule heap_get_Some_less)
  have old: "\<And>old. m_pizza b = Some old \<Longrightarrow> old < length (pizza_heap s)"
    using assms(2) by (auto simp: owns_live_def heap_get_def split: if_splits)
  show ?thesis
    using pb old by (cases "m_pizza b") (auto simp: makePizza_result [OF assms])
qed

section \<open>Builder: the properties\<close>

text \<open>
  \<^bold>\<open>C10.\<close> Each build-part operation changes one attribute of the product under
  construction and leaves the other two as they were. For a builder \<open>pb\<close> of either class
  that owns the pizza \<open>a\<close>, and whatever the three attributes of that pizza are:
  \<^verbatim>\<open>buildDough\<close> returns, the pizza has its old sauce and topping and the dough of the
  builder's class; likewise \<^verbatim>\<open>buildSauce\<close> keeps dough and topping, and \<^verbatim>\<open>buildTopping\<close>
  keeps dough and sauce. In each case the pizza store differs from the old one at \<open>a\<close>
  only, and the builders are untouched.
\<close>

theorem build_parts_frame:
  assumes "heap_get (builder_heap s) pb = Some b" and "m_pizza b = Some a"
    and "heap_get (pizza_heap s) a = Some p"
  shows "(\<exists>s' p'. buildDough pb s = Inr s' \<and> heap_get (pizza_heap s') a = Some p' \<and>
            m_sauce p' = m_sauce p \<and> m_topping p' = m_topping p \<and>
            m_dough p' = (case builder_class b of
               HawaiianPizzaBuilder \<Rightarrow> ''cross'' | SpicyPizzaBuilder \<Rightarrow> ''pan baked'') \<and>
            pizza_heap s' = (pizza_heap s)[a := Some p'] \<and> builder_heap s' = builder_heap s) \<and>
         (\<exists>s' p'. buildSauce pb s = Inr s' \<and> heap_get (pizza_heap s') a = Some p' \<and>
            m_dough p' = m_dough p \<and> m_topping p' = m_topping p \<and>
            m_sauce p' = (case builder_class b of
               HawaiianPizzaBuilder \<Rightarrow> ''mild'' | SpicyPizzaBuilder \<Rightarrow> ''hot'') \<and>
            pizza_heap s' = (pizza_heap s)[a := Some p'] \<and> builder_heap s' = builder_heap s) \<and>
         (\<exists>s' p'. buildTopping pb s = Inr s' \<and> heap_get (pizza_heap s') a = Some p' \<and>
            m_dough p' = m_dough p \<and> m_sauce p' = m_sauce p \<and>
            m_topping p' = (case builder_class b of
               HawaiianPizzaBuilder \<Rightarrow> ''ham+pineapple''
             | SpicyPizzaBuilder \<Rightarrow> ''pepperoni+salami'') \<and>
            pizza_heap s' = (pizza_heap s)[a := Some p'] \<and> builder_heap s' = builder_heap s)"
proof -
  have a: "a < length (pizza_heap s)"
    using assms(3) by (rule heap_get_Some_less)
  show ?thesis
    using a by (simp add: buildDough_result [OF assms] buildSauce_result [OF assms]
        buildTopping_result [OF assms] heap_put_def heap_get_def)
qed

theorem build_parts_frame_witness:
  "(let p = \<lparr>m_dough = ''thin'', m_sauce = ''none'', m_topping = ''cheese''\<rparr>;
        b = \<lparr>builder_class = HawaiianPizzaBuilder, m_pizza = Some 0\<rparr>;
        s = initial\<lparr>pizza_heap := [Some p], builder_heap := [Some b]\<rparr>
    in heap_get (builder_heap s) 0 = Some b \<and> m_pizza b = Some 0 \<and>
       heap_get (pizza_heap s) 0 = Some p \<and>
       (\<exists>s' p'. buildDough 0 s = Inr s' \<and> heap_get (pizza_heap s') 0 = Some p' \<and>
          m_sauce p' = ''none'' \<and> m_topping p' = ''cheese'' \<and> m_dough p' = ''cross'' \<and>
          pizza_heap s' = (pizza_heap s)[0 := Some p'] \<and> builder_heap s' = builder_heap s) \<and>
       (\<exists>s' p'. buildSauce 0 s = Inr s' \<and> heap_get (pizza_heap s') 0 = Some p' \<and>
          m_dough p' = ''thin'' \<and> m_topping p' = ''cheese'' \<and> m_sauce p' = ''mild'' \<and>
          pizza_heap s' = (pizza_heap s)[0 := Some p'] \<and> builder_heap s' = builder_heap s) \<and>
       (\<exists>s' p'. buildTopping 0 s = Inr s' \<and> heap_get (pizza_heap s') 0 = Some p' \<and>
          m_dough p' = ''thin'' \<and> m_sauce p' = ''none'' \<and> m_topping p' = ''ham+pineapple'' \<and>
          pizza_heap s' = (pizza_heap s)[0 := Some p'] \<and> builder_heap s' = builder_heap s))"
  using build_parts_frame [of
      "initial\<lparr>pizza_heap := [Some \<lparr>m_dough = ''thin'', m_sauce = ''none'', m_topping = ''cheese''\<rparr>],
               builder_heap := [Some \<lparr>builder_class = HawaiianPizzaBuilder, m_pizza = Some 0\<rparr>]\<rparr>"
      0 "\<lparr>builder_class = HawaiianPizzaBuilder, m_pizza = Some 0\<rparr>" 0
      "\<lparr>m_dough = ''thin'', m_sauce = ''none'', m_topping = ''cheese''\<rparr>"]
  by (simp add: heap_get_def initial_def)

text \<open>
  \<^bold>\<open>C1.\<close> After the director has run its build sequence with a builder, the product of
  that builder has the three literals of the builder's class. For every cook, and every
  builder \<open>pb\<close> whose \<^verbatim>\<open>unique_ptr\<close> is null or owns a pizza: \<^verbatim>\<open>makePizza\<close> returns,
  \<^verbatim>\<open>getPizza\<close> then yields a pizza, and that pizza is cross / mild / ham+pineapple for a
  \<^verbatim>\<open>HawaiianPizzaBuilder\<close> and pan baked / hot / pepperoni+salami for a
  \<^verbatim>\<open>SpicyPizzaBuilder\<close>.
\<close>

theorem makePizza_product:
  assumes "heap_get (builder_heap s) pb = Some b" and "owns_live s b"
  shows "\<exists>cook' s' a.
           makePizza cook pb s = Inr (cook', s') \<and>
           getPizza pb s' = Inr (Some a, log_call (Call_getPizza pb) s') \<and>
           heap_get (pizza_heap s') a =
             Some (case builder_class b of
                     HawaiianPizzaBuilder \<Rightarrow>
                       \<lparr>m_dough = ''cross'', m_sauce = ''mild'', m_topping = ''ham+pineapple''\<rparr>
                   | SpicyPizzaBuilder \<Rightarrow>
                       \<lparr>m_dough = ''pan baked'', m_sauce = ''hot'',
                        m_topping = ''pepperoni+salami''\<rparr>)"
proof -
  have pb: "pb < length (builder_heap s)"
    using assms(1) by (rule heap_get_Some_less)
  have old: "\<And>old. m_pizza b = Some old \<Longrightarrow> old \<noteq> length (pizza_heap s)"
    using assms(2) by (auto simp: owns_live_def)
  show ?thesis
    using pb old
    by (cases "m_pizza b") (simp_all add: makePizza_result [OF assms] getPizza_def)
qed

theorem makePizza_product_witness:
  "(let s = initial\<lparr>pizza_heap := [Some \<lparr>m_dough = ''thin'', m_sauce = ''none'', m_topping = ''cheese''\<rparr>],
                     builder_heap := [Some \<lparr>builder_class = SpicyPizzaBuilder, m_pizza = Some 0\<rparr>]\<rparr>
    in heap_get (builder_heap s) 0 = Some \<lparr>builder_class = SpicyPizzaBuilder, m_pizza = Some 0\<rparr> \<and>
       owns_live s \<lparr>builder_class = SpicyPizzaBuilder, m_pizza = Some 0\<rparr> \<and>
       (\<exists>cook' s' a.
           makePizza \<lparr>m_pizzaBuilder = None\<rparr> 0 s = Inr (cook', s') \<and>
           getPizza 0 s' = Inr (Some a, log_call (Call_getPizza 0) s') \<and>
           heap_get (pizza_heap s') a =
             Some \<lparr>m_dough = ''pan baked'', m_sauce = ''hot'', m_topping = ''pepperoni+salami''\<rparr>))"
  using makePizza_product [of
      "initial\<lparr>pizza_heap := [Some \<lparr>m_dough = ''thin'', m_sauce = ''none'', m_topping = ''cheese''\<rparr>],
                     builder_heap := [Some \<lparr>builder_class = SpicyPizzaBuilder, m_pizza = Some 0\<rparr>]\<rparr>"
      0 "\<lparr>builder_class = SpicyPizzaBuilder, m_pizza = Some 0\<rparr>" "\<lparr>m_pizzaBuilder = None\<rparr>"]
  by (simp add: heap_get_def owns_live_def initial_def)

text \<open>
  \<^bold>\<open>C7.\<close> The director performs exactly four steps on the builder it is given, in this
  order: \<^verbatim>\<open>createNewPizzaProduct\<close>, \<^verbatim>\<open>buildDough\<close>, \<^verbatim>\<open>buildSauce\<close>, \<^verbatim>\<open>buildTopping\<close>.
  For a builder of either class, \<^verbatim>\<open>makePizza\<close> returns the state that these four calls
  produce one after the other; the calls it adds to the log are these four, on that
  builder, and no other; and the first step makes a fresh product: after it the builder
  owns a pizza that did not exist before.
\<close>

theorem makePizza_steps:
  assumes "heap_get (builder_heap s) pb = Some b" and "owns_live s b"
  shows "\<exists>cook' s1 s2 s3 s4.
           makePizza cook pb s = Inr (cook', s4) \<and>
           createNewPizzaProduct pb s = Inr s1 \<and>
           buildDough pb s1 = Inr s2 \<and>
           buildSauce pb s2 = Inr s3 \<and>
           buildTopping pb s3 = Inr s4 \<and>
           calls s4 = calls s @ [Call_createNewPizzaProduct pb, Call_buildDough pb,
                                 Call_buildSauce pb, Call_buildTopping pb] \<and>
           heap_get (pizza_heap s) (length (pizza_heap s)) = None \<and>
           getPizza pb s1 = Inr (Some (length (pizza_heap s)), log_call (Call_getPizza pb) s1)"
proof -
  obtain cook' s4 where r: "makePizza cook pb s = Inr (cook', s4)"
    and c: "calls s4 = calls s @ [Call_createNewPizzaProduct pb, Call_buildDough pb,
                                 Call_buildSauce pb, Call_buildTopping pb]"
    using makePizza_result [OF assms, of cook] by simp
  from r obtain s1 s2 s3 where steps: "createNewPizzaProduct pb s = Inr s1"
      "buildDough pb s1 = Inr s2" "buildSauce pb s2 = Inr s3" "buildTopping pb s3 = Inr s4"
    by (auto simp: makePizza_sequence and_then_eq_Inr)
  have pb: "pb < length (builder_heap s)"
    using assms(1) by (rule heap_get_Some_less)
  have "getPizza pb s1 = Inr (Some (length (pizza_heap s)), log_call (Call_getPizza pb) s1)"
    using steps(1) pb by (auto simp: createNewPizzaProduct_result [OF assms] getPizza_def)
  with r c steps show ?thesis
    by simp
qed

theorem makePizza_steps_witness:
  "(let b = \<lparr>builder_class = HawaiianPizzaBuilder, m_pizza = None\<rparr>;
        s = initial\<lparr>builder_heap := [Some b]\<rparr>
    in heap_get (builder_heap s) 0 = Some b \<and> owns_live s b \<and>
       (\<exists>cook' s1 s2 s3 s4.
           makePizza \<lparr>m_pizzaBuilder = None\<rparr> 0 s = Inr (cook', s4) \<and>
           createNewPizzaProduct 0 s = Inr s1 \<and>
           buildDough 0 s1 = Inr s2 \<and>
           buildSauce 0 s2 = Inr s3 \<and>
           buildTopping 0 s3 = Inr s4 \<and>
           calls s4 = [Call_createNewPizzaProduct 0, Call_buildDough 0,
                       Call_buildSauce 0, Call_buildTopping 0] \<and>
           heap_get (pizza_heap s) 0 = None \<and>
           getPizza 0 s1 = Inr (Some 0, log_call (Call_getPizza 0) s1)))"
  using makePizza_steps [of
      "initial\<lparr>builder_heap := [Some \<lparr>builder_class = HawaiianPizzaBuilder, m_pizza = None\<rparr>]\<rparr>"
      0 "\<lparr>builder_class = HawaiianPizzaBuilder, m_pizza = None\<rparr>" "\<lparr>m_pizzaBuilder = None\<rparr>"]
  by (simp add: heap_get_def owns_live_def initial_def)

text \<open>
  \<^bold>\<open>C5.\<close> Two builds in succession with builders of the same class yield two products
  with the same three attributes that share nothing. The two builders \<open>pb1\<close> and \<open>pb2\<close>
  may be one object or two (two builders never own the same pizza). Both builds return;
  the second product \<open>p2\<close> is another object than the first product \<open>p1\<close>, and neither
  existed before its build; each has the value \<open>v\<close> when its build ends. When the
  builders are two objects, the first product still exists with the value \<open>v\<close> after
  the second build and still belongs to \<open>pb1\<close>; when they are one object, the second
  build has destroyed the first product.
\<close>

theorem two_builds_independent:
  assumes b1: "heap_get (builder_heap s) pb1 = Some b1"
    and b2: "heap_get (builder_heap s) pb2 = Some b2"
    and cls: "builder_class b1 = builder_class b2"
    and l1: "owns_live s b1" and l2: "owns_live s b2"
    and uniq: "pb1 = pb2 \<or> m_pizza b1 = None \<or> m_pizza b1 \<noteq> m_pizza b2"
  shows "\<exists>cook1 s1 p1 cook2 s2 p2 v.
           makePizza cook pb1 s = Inr (cook1, s1) \<and>
           getPizza pb1 s1 = Inr (Some p1, log_call (Call_getPizza pb1) s1) \<and>
           makePizza cook1 pb2 s1 = Inr (cook2, s2) \<and>
           getPizza pb2 s2 = Inr (Some p2, log_call (Call_getPizza pb2) s2) \<and>
           p1 \<noteq> p2 \<and>
           heap_get (pizza_heap s) p1 = None \<and>
           heap_get (pizza_heap s1) p2 = None \<and>
           heap_get (pizza_heap s1) p1 = Some v \<and>
           heap_get (pizza_heap s2) p2 = Some v \<and>
           heap_get (pizza_heap s2) p1 = (if pb1 = pb2 then None else Some v) \<and>
           (if pb1 = pb2 then True
            else getPizza pb1 s2 = Inr (Some p1, log_call (Call_getPizza pb1) s2))"
proof -
  let ?n = "length (pizza_heap s)"
  let ?v = "case builder_class b1 of
              HawaiianPizzaBuilder \<Rightarrow>
                \<lparr>m_dough = ''cross'', m_sauce = ''mild'', m_topping = ''ham+pineapple''\<rparr>
            | SpicyPizzaBuilder \<Rightarrow>
                \<lparr>m_dough = ''pan baked'', m_sauce = ''hot'', m_topping = ''pepperoni+salami''\<rparr>"
  let ?cook1 = "cook\<lparr>m_pizzaBuilder := Some pb1\<rparr>"
  have old2: "\<And>old. m_pizza b2 = Some old \<Longrightarrow> old < ?n"
    using l2 by (auto simp: owns_live_def heap_get_def split: if_splits)
  obtain s1 where m1: "makePizza cook pb1 s = Inr (?cook1, s1)"
    and len1: "length (pizza_heap s1) = Suc ?n"
    and get1: "\<And>x. heap_get (pizza_heap s1) x =
        (if x = ?n then Some ?v else if m_pizza b1 = Some x then None
         else heap_get (pizza_heap s) x)"
    and bld1: "\<And>q. heap_get (builder_heap s1) q =
        (if q = pb1 then Some (b1\<lparr>m_pizza := Some ?n\<rparr>) else heap_get (builder_heap s) q)"
    using makePizza_effect [OF b1 l1, of cook] by blast
  define b2' where "b2' = (if pb1 = pb2 then b1\<lparr>m_pizza := Some ?n\<rparr> else b2)"
  have b2': "heap_get (builder_heap s1) pb2 = Some b2'"
    using b2 by (simp add: bld1 b2'_def)
  have l2': "owns_live s1 b2'"
    using l2 uniq by (auto simp: owns_live_def get1 b2'_def split: option.splits)
  have cls2: "builder_class b2' = builder_class b1"
    using cls by (simp add: b2'_def)
  obtain s2 where m2: "makePizza ?cook1 pb2 s1 = Inr (?cook1\<lparr>m_pizzaBuilder := Some pb2\<rparr>, s2)"
    and get2: "\<And>x. heap_get (pizza_heap s2) x =
        (if x = Suc ?n then Some ?v else if m_pizza b2' = Some x then None
         else heap_get (pizza_heap s1) x)"
    and bld2: "\<And>q. heap_get (builder_heap s2) q =
        (if q = pb2 then Some (b2'\<lparr>m_pizza := Some (Suc ?n)\<rparr>) else heap_get (builder_heap s1) q)"
    using makePizza_effect [OF b2' l2', of ?cook1] unfolding cls2 len1 by blast
  have g1: "getPizza pb1 s1 = Inr (Some ?n, log_call (Call_getPizza pb1) s1)"
    by (simp add: getPizza_def bld1)
  have g2: "getPizza pb2 s2 = Inr (Some (Suc ?n), log_call (Call_getPizza pb2) s2)"
    by (simp add: getPizza_def bld2)
  have g3: "pb1 \<noteq> pb2 \<Longrightarrow> getPizza pb1 s2 = Inr (Some ?n, log_call (Call_getPizza pb1) s2)"
    by (simp add: getPizza_def bld2 bld1)
  have p1_s2: "heap_get (pizza_heap s2) ?n = (if pb1 = pb2 then None else Some ?v)"
    using old2 by (auto simp: get2 get1 b2'_def)
  have fresh2: "heap_get (pizza_heap s1) (Suc ?n) = None"
    using len1 by (metis heap_get_length)
  have "makePizza cook pb1 s = Inr (?cook1, s1) \<and>
           getPizza pb1 s1 = Inr (Some ?n, log_call (Call_getPizza pb1) s1) \<and>
           makePizza ?cook1 pb2 s1 = Inr (?cook1\<lparr>m_pizzaBuilder := Some pb2\<rparr>, s2) \<and>
           getPizza pb2 s2 = Inr (Some (Suc ?n), log_call (Call_getPizza pb2) s2) \<and>
           ?n \<noteq> Suc ?n \<and>
           heap_get (pizza_heap s) ?n = None \<and>
           heap_get (pizza_heap s1) (Suc ?n) = None \<and>
           heap_get (pizza_heap s1) ?n = Some ?v \<and>
           heap_get (pizza_heap s2) (Suc ?n) = Some ?v \<and>
           heap_get (pizza_heap s2) ?n = (if pb1 = pb2 then None else Some ?v) \<and>
           (if pb1 = pb2 then True
            else getPizza pb1 s2 = Inr (Some ?n, log_call (Call_getPizza pb1) s2))"
    using m1 g1 m2 g2 g3 p1_s2 fresh2 by (simp add: get1 get2)
  then show ?thesis
    by blast
qed

theorem two_builds_independent_witness:
  "(let b1 = \<lparr>builder_class = HawaiianPizzaBuilder, m_pizza = None\<rparr>;
        b2 = \<lparr>builder_class = HawaiianPizzaBuilder, m_pizza = Some 0\<rparr>;
        s = initial\<lparr>pizza_heap :=
                       [Some \<lparr>m_dough = ''thin'', m_sauce = ''none'', m_topping = ''cheese''\<rparr>],
                     builder_heap := [Some b1, Some b2]\<rparr>
    in heap_get (builder_heap s) 0 = Some b1 \<and> heap_get (builder_heap s) 1 = Some b2 \<and>
       builder_class b1 = builder_class b2 \<and> owns_live s b1 \<and> owns_live s b2 \<and>
       m_pizza b1 = None \<and>
       (\<exists>cook1 s1 p1 cook2 s2 p2 v.
           makePizza \<lparr>m_pizzaBuilder = None\<rparr> 0 s = Inr (cook1, s1) \<and>
           getPizza 0 s1 = Inr (Some p1, log_call (Call_getPizza 0) s1) \<and>
           makePizza cook1 1 s1 = Inr (cook2, s2) \<and>
           getPizza 1 s2 = Inr (Some p2, log_call (Call_getPizza 1) s2) \<and>
           p1 \<noteq> p2 \<and>
           heap_get (pizza_heap s) p1 = None \<and>
           heap_get (pizza_heap s1) p2 = None \<and>
           heap_get (pizza_heap s1) p1 = Some v \<and>
           heap_get (pizza_heap s2) p2 = Some v \<and>
           heap_get (pizza_heap s2) p1 = Some v \<and>
           getPizza 0 s2 = Inr (Some p1, log_call (Call_getPizza 0) s2)))"
proof -
  let ?b1 = "\<lparr>builder_class = HawaiianPizzaBuilder, m_pizza = None\<rparr>"
  let ?b2 = "\<lparr>builder_class = HawaiianPizzaBuilder, m_pizza = Some 0\<rparr>"
  let ?s = "initial\<lparr>pizza_heap :=
                       [Some \<lparr>m_dough = ''thin'', m_sauce = ''none'', m_topping = ''cheese''\<rparr>],
                     builder_heap := [Some ?b1, Some ?b2]\<rparr>"
  have h1: "heap_get (builder_heap ?s) 0 = Some ?b1"
    and h2: "heap_get (builder_heap ?s) 1 = Some ?b2"
    by (simp_all add: heap_get_def)
  have h3: "builder_class ?b1 = builder_class ?b2"
    by simp
  have h4: "owns_live ?s ?b1" and h5: "owns_live ?s ?b2"
    by (simp_all add: owns_live_def heap_get_def)
  have h6: "m_pizza ?b1 = None"
    by simp
  have c: "\<exists>cook1 s1 p1 cook2 s2 p2 v.
           makePizza \<lparr>m_pizzaBuilder = None\<rparr> 0 ?s = Inr (cook1, s1) \<and>
           getPizza 0 s1 = Inr (Some p1, log_call (Call_getPizza 0) s1) \<and>
           makePizza cook1 1 s1 = Inr (cook2, s2) \<and>
           getPizza 1 s2 = Inr (Some p2, log_call (Call_getPizza 1) s2) \<and>
           p1 \<noteq> p2 \<and>
           heap_get (pizza_heap ?s) p1 = None \<and>
           heap_get (pizza_heap s1) p2 = None \<and>
           heap_get (pizza_heap s1) p1 = Some v \<and>
           heap_get (pizza_heap s2) p2 = Some v \<and>
           heap_get (pizza_heap s2) p1 = Some v \<and>
           getPizza 0 s2 = Inr (Some p1, log_call (Call_getPizza 0) s2)"
    using two_builds_independent [OF h1 h2 h3 h4 h5, of "\<lparr>m_pizzaBuilder = None\<rparr>"] h6
    by simp
  show ?thesis
    unfolding Let_def by (intro conjI h1 h2 h3 h4 h5 h6 c)
qed

section \<open>Factory method: what each member function returns\<close>

lemma CreateDocument_result:
  assumes "length nm < 20"
  shows "CreateDocument this nm s =
    Inr (length (document_heap s),
         s\<lparr>document_heap := document_heap s @ [Some \<lparr>document_class = MyDocument, name = nm\<rparr>],
           cout := cout s @ ''   MyApplication: CreateDocument()'' @ endl,
           calls := calls s @ [Call_CreateDocument nm]\<rparr>)"
  using assms
  by (cases "application_class this")
     (simp add: CreateDocument_def MyApplication_CreateDocument_def MyDocument_ctor_def
        Document_ctor_def heap_new_def print_def log_call_def)

lemma CreateDocument_overflow:
  assumes "\<not> length nm < 20"
  shows "CreateDocument this nm s = Inl BufferOverflow"
  using assms
  by (cases "application_class this")
     (simp add: CreateDocument_def MyApplication_CreateDocument_def MyDocument_ctor_def
        Document_ctor_def)

lemma NewDocument_result:
  assumes "0 \<le> m_index this" and "m_index this < 10" and "length (m_docs this) = 10"
    and "length nm < 20"
  shows "NewDocument this nm s =
    Inr (this\<lparr>m_docs := (m_docs this)[nat (m_index this) := Some (length (document_heap s))],
              m_index := m_index this + 1\<rparr>,
         s\<lparr>document_heap := document_heap s @ [Some \<lparr>document_class = MyDocument, name = nm\<rparr>],
           cout := cout s @ ''Application: NewDocument()'' @ endl
                   @ ''   MyApplication: CreateDocument()'' @ endl
                   @ ''   MyDocument: Open()'' @ endl,
           calls := calls s @ [Call_CreateDocument nm, Call_Open (length (document_heap s))]\<rparr>)"
  using assms
  by (simp add: NewDocument_def CreateDocument_result Document_Open_def MyDocument_Open_def
      print_def log_call_def)

lemma NewDocument_overflow:
  "\<not> length nm < 20 \<Longrightarrow> NewDocument this nm s = Inl BufferOverflow"
  by (simp add: NewDocument_def CreateDocument_overflow)

lemma NewDocument_out_of_bounds:
  "length nm < 20 \<Longrightarrow> \<not> (0 \<le> m_index this \<and> m_index this < 10) \<Longrightarrow>
   NewDocument this nm s = Inl IndexOutOfBounds"
  by (simp add: NewDocument_def CreateDocument_result)

lemma registry_slot_live:
  assumes "registry this s = map Some ds" and "p \<in> set (take (nat (m_index this)) (m_docs this))"
  shows "\<exists>a d. p = Some a \<and> heap_get (document_heap s) a = Some d"
proof -
  from assms(2) have "(case p of None \<Rightarrow> None | Some a \<Rightarrow> heap_get (document_heap s) a)
      \<in> set (registry this s)"
    by (auto simp: registry_def)
  with assms(1) show ?thesis
    by (cases p) auto
qed

lemma registry_extend:
  assumes r: "registry this s = map Some ds"
    and h: "document_heap s' = document_heap s @ [x]"
  shows "registry this s' = map Some ds"
proof -
  have "map (\<lambda>p. case p of None \<Rightarrow> None | Some a \<Rightarrow> heap_get (document_heap s') a)
          (take (nat (m_index this)) (m_docs this)) =
        map (\<lambda>p. case p of None \<Rightarrow> None | Some a \<Rightarrow> heap_get (document_heap s) a)
          (take (nat (m_index this)) (m_docs this))"
  proof (rule map_cong [OF refl])
    fix p assume "p \<in> set (take (nat (m_index this)) (m_docs this))"
    from registry_slot_live [OF r this] obtain a d
      where "p = Some a" and "heap_get (document_heap s) a = Some d"
      by blast
    then show "(case p of None \<Rightarrow> None | Some a \<Rightarrow> heap_get (document_heap s') a) =
               (case p of None \<Rightarrow> None | Some a \<Rightarrow> heap_get (document_heap s) a)"
      by (auto simp: h dest: heap_get_Some_less)
  qed
  with r show ?thesis
    by (simp add: registry_def)
qed

lemma registry_step:
  assumes len: "length (m_docs this) = 10" and lo: "0 \<le> m_index this" and hi: "m_index this < 10"
    and r: "registry this s = map Some ds"
    and h: "document_heap s' = document_heap s @ [Some d]"
  shows "registry (this\<lparr>m_docs := (m_docs this)[nat (m_index this) := Some (length (document_heap s))],
                        m_index := m_index this + 1\<rparr>) s' = map Some (ds @ [d])"
proof -
  let ?k = "nat (m_index this)"
  let ?this' = "this\<lparr>m_docs := (m_docs this)[?k := Some (length (document_heap s))],
                        m_index := m_index this + 1\<rparr>"
  have k: "?k < length (m_docs this)"
    using len lo hi by simp
  have suc: "nat (m_index this + 1) = Suc ?k"
    using lo by simp
  have "take (Suc ?k) ((m_docs this)[?k := Some (length (document_heap s))]) =
        take ?k (m_docs this) @ [Some (length (document_heap s))]"
    using k by (simp add: take_Suc_conv_app_nth)
  then have "registry ?this' s' = registry this s' @ [Some d]"
    by (simp add: registry_def suc h)
  with registry_extend [OF r h] show ?thesis
    by simp
qed

lemma NewDocuments_result:
  assumes "length (m_docs this) = 10" and "0 \<le> m_index this"
    and "m_index this + int (length names) \<le> 10"
    and "\<forall>nm \<in> set names. length nm < 20"
    and "registry this s = map Some ds"
  shows "\<exists>this' s'. NewDocuments this names s = Inr (this', s') \<and>
           length (m_docs this') = 10 \<and>
           m_index this' = m_index this + int (length names) \<and>
           registry this' s' =
             map Some (ds @ map (\<lambda>nm. \<lparr>document_class = MyDocument, name = nm\<rparr>) names)"
  using assms
proof (induction names arbitrary: this s ds)
  case Nil
  then show ?case by simp
next
  case (Cons nm names)
  let ?d = "\<lparr>document_class = MyDocument, name = nm\<rparr>"
  let ?this1 = "this\<lparr>m_docs := (m_docs this)[nat (m_index this) := Some (length (document_heap s))],
              m_index := m_index this + 1\<rparr>"
  let ?s1 = "s\<lparr>document_heap := document_heap s @ [Some ?d],
           cout := cout s @ ''Application: NewDocument()'' @ endl
                   @ ''   MyApplication: CreateDocument()'' @ endl
                   @ ''   MyDocument: Open()'' @ endl,
           calls := calls s @ [Call_CreateDocument nm, Call_Open (length (document_heap s))]\<rparr>"
  have hi: "m_index this < 10" and nm: "length nm < 20"
    using Cons.prems by simp_all
  have step: "NewDocument this nm s = Inr (?this1, ?s1)"
    using Cons.prems(1,2) hi nm by (simp add: NewDocument_result)
  have r1: "registry ?this1 ?s1 = map Some (ds @ [?d])"
    using Cons.prems(1,2) hi Cons.prems(5) by (rule registry_step) simp
  have "\<exists>this' s'. NewDocuments ?this1 names ?s1 = Inr (this', s') \<and>
           length (m_docs this') = 10 \<and>
           m_index this' = m_index ?this1 + int (length names) \<and>
           registry this' s' =
             map Some ((ds @ [?d]) @ map (\<lambda>nm. \<lparr>document_class = MyDocument, name = nm\<rparr>) names)"
    using Cons.prems by (intro Cons.IH r1) simp_all
  then obtain this' s' where "NewDocuments ?this1 names ?s1 = Inr (this', s')"
    and "length (m_docs this') = 10"
    and "m_index this' = m_index ?this1 + int (length names)"
    and "registry this' s' =
           map Some ((ds @ [?d]) @ map (\<lambda>nm. \<lparr>document_class = MyDocument, name = nm\<rparr>) names)"
    by blast
  then have "NewDocuments this (nm # names) s = Inr (this', s') \<and>
           length (m_docs this') = 10 \<and>
           m_index this' = m_index this + int (length (nm # names)) \<and>
           registry this' s' =
             map Some (ds @ map (\<lambda>nm. \<lparr>document_class = MyDocument, name = nm\<rparr>) (nm # names))"
    by (simp add: step)
  then show ?case
    by blast
qed

lemma registry_length:
  assumes "length (m_docs this) = 10" and "m_index this \<le> 10"
    and "registry this s = map Some ds"
  shows "length ds = nat (m_index this)"
proof -
  have "length (registry this s) = nat (m_index this)"
    using assms(1,2) by (simp add: registry_def)
  with assms(3) show ?thesis
    by simp
qed

lemma registry_nth:
  assumes "length (m_docs this) = 10" and "m_index this \<le> 10"
    and "registry this s = map Some ds" and "0 \<le> i" and "i < m_index this"
  shows "\<exists>a. m_docs this ! nat i = Some a \<and> heap_get (document_heap s) a = Some (ds ! nat i)"
proof -
  have i: "nat i < nat (m_index this)"
    using assms(4,5) by simp
  then have len: "nat i < length ds"
    using registry_length [OF assms(1-3)] by simp
  have "registry this s ! nat i =
      (case m_docs this ! nat i of None \<Rightarrow> None | Some a \<Rightarrow> heap_get (document_heap s) a)"
    using i assms(1,2) by (simp add: registry_def)
  moreover have "registry this s ! nat i = Some (ds ! nat i)"
    using len by (simp add: assms(3))
  ultimately show ?thesis
    by (cases "m_docs this ! nat i") simp_all
qed

lemma registry_cong:
  "document_heap s' = document_heap s \<Longrightarrow> registry this s' = registry this s"
  unfolding registry_def by (erule ssubst) (rule refl)

lemma ReportDocs_loop_result:
  assumes "length (m_docs this) = 10" and "m_index this \<le> 10"
    and "registry this s = map Some ds" and "0 \<le> i" and "i \<le> m_index this"
    and "n = nat (m_index this - i)"
  shows "\<exists>s'. ReportDocs_loop this i s = Inr s' \<and>
           cout s' = cout s @ concat (map (\<lambda>d. ''   '' @ name d @ endl) (drop (nat i) ds)) \<and>
           document_heap s' = document_heap s"
  using assms
proof (induction n arbitrary: i s)
  case 0
  then have i: "i = m_index this"
    by simp
  have "length ds = nat i"
    using registry_length [OF "0.prems"(1-3)] i by simp
  then show ?case
    using i by (subst ReportDocs_loop.simps) simp
next
  case (Suc n)
  then have lt: "i < m_index this"
    by simp
  from registry_nth [OF Suc.prems(1-4) lt] obtain a
    where a: "m_docs this ! nat i = Some a"
      and d: "heap_get (document_heap s) a = Some (ds ! nat i)"
    by blast
  let ?s1 = "print (''   '' @ name (ds ! nat i) @ endl) (log_call (Call_GetName a) s)"
  have heap1: "document_heap ?s1 = document_heap s"
    by (simp add: print_def log_call_def)
  have unfold: "ReportDocs_loop this i s = ReportDocs_loop this (i + 1) ?s1"
    using lt Suc.prems(2,4) a d by (subst ReportDocs_loop.simps) (simp add: GetName_def)
  have r1: "registry this ?s1 = map Some ds"
    using Suc.prems(3) registry_cong [OF heap1, of this] by simp
  have "\<exists>s'. ReportDocs_loop this (i + 1) ?s1 = Inr s' \<and>
           cout s' = cout ?s1 @ concat (map (\<lambda>d. ''   '' @ name d @ endl) (drop (nat (i + 1)) ds)) \<and>
           document_heap s' = document_heap ?s1"
    using Suc.prems lt by (intro Suc.IH r1) simp_all
  then obtain s' where run: "ReportDocs_loop this (i + 1) ?s1 = Inr s'"
    and out: "cout s' = cout ?s1 @ concat (map (\<lambda>d. ''   '' @ name d @ endl) (drop (nat (i + 1)) ds))"
    and heap': "document_heap s' = document_heap ?s1"
    by blast
  have len: "nat i < length ds"
    using registry_length [OF Suc.prems(1-3)] lt Suc.prems(4) by simp
  have suc: "nat (i + 1) = Suc (nat i)"
    using Suc.prems(4) by simp
  have "drop (nat i) ds = ds ! nat i # drop (nat (i + 1)) ds"
    using len by (simp add: suc Cons_nth_drop_Suc)
  then have "cout s' = cout s @ concat (map (\<lambda>d. ''   '' @ name d @ endl) (drop (nat i) ds))"
    by (simp add: out print_def log_call_def)
  with run heap' heap1 unfold show ?case
    by simp
qed

lemma ReportDocs_result:
  assumes "length (m_docs this) = 10" and "0 \<le> m_index this" and "m_index this \<le> 10"
    and "registry this s = map Some ds"
  shows "\<exists>s'. ReportDocs this s = Inr s' \<and>
           cout s' = cout s @ ''Application: ReportDocs()'' @ endl
                     @ concat (map (\<lambda>d. ''   '' @ name d @ endl) ds)"
proof -
  let ?s0 = "print (''Application: ReportDocs()'' @ endl) s"
  have "document_heap ?s0 = document_heap s"
    by (simp add: print_def)
  from registry_cong [OF this, of this] have r0: "registry this ?s0 = map Some ds"
    using assms(4) by simp
  from ReportDocs_loop_result [OF assms(1,3) r0 order_refl assms(2) refl]
  obtain s' where "ReportDocs_loop this 0 ?s0 = Inr s'"
    and "cout s' = cout ?s0 @ concat (map (\<lambda>d. ''   '' @ name d @ endl) (drop (nat 0) ds))"
    by blast
  then show ?thesis
    by (simp add: ReportDocs_def print_def)
qed

lemma NewDocuments_cases:
  assumes "length (m_docs this) = 10" and "0 \<le> m_index this"
    and "m_index this + int (length names) \<le> 10"
  shows "case NewDocuments this names s of
           Inl e \<Rightarrow> e = BufferOverflow \<and> (\<exists>nm \<in> set names. 20 \<le> length nm)
         | Inr (app, s1) \<Rightarrow>
             m_index app = m_index this + int (length names) \<and> length (m_docs app) = 10"
  using assms
proof (induction names arbitrary: this s)
  case Nil
  then show ?case by simp
next
  case (Cons nm names)
  show ?case
  proof (cases "length nm < 20")
    case True
    let ?this1 = "this\<lparr>m_docs := (m_docs this)[nat (m_index this) := Some (length (document_heap s))],
              m_index := m_index this + 1\<rparr>"
    from Cons.prems True obtain s1 where step: "NewDocument this nm s = Inr (?this1, s1)"
      by (simp add: NewDocument_result)
    have "case NewDocuments ?this1 names s1 of
           Inl e \<Rightarrow> e = BufferOverflow \<and> (\<exists>nm \<in> set names. 20 \<le> length nm)
         | Inr (app, s2) \<Rightarrow>
             m_index app = m_index ?this1 + int (length names) \<and> length (m_docs app) = 10"
      using Cons.prems by (intro Cons.IH) simp_all
    then show ?thesis
      by (auto simp: step split: sum.splits)
  next
    case False
    then show ?thesis
      by (auto simp: NewDocument_overflow)
  qed
qed

section \<open>Factory method: the properties\<close>

text \<open>
  \<^bold>\<open>C2.\<close> After \<open>N\<close> calls of \<^verbatim>\<open>NewDocument\<close> on a new application the registry holds
  exactly \<open>N\<close> documents, in call order, each with the name that its call was given, and
  \<^verbatim>\<open>ReportDocs\<close> prints those names in that order. This holds for every list of at most
  10 names, each of fewer than 20 characters (\<^verbatim>\<open>name\<close> is a \<^verbatim>\<open>char[20]\<close> that \<^verbatim>\<open>strcpy\<close>
  fills): the calls return, \<open>_index\<close> is \<open>N\<close>, the documents that the first \<open>N\<close> slots
  point to are the documents of the names, and \<^verbatim>\<open>ReportDocs\<close> returns having written
  its heading and one line per name.
\<close>

theorem NewDocuments_registry:
  assumes "length names \<le> 10" and "\<forall>nm \<in> set names. length nm < 20"
    and "MyApplication_ctor s = (app0, s0)"
  shows "\<exists>app s1 s2.
           NewDocuments app0 names s0 = Inr (app, s1) \<and>
           m_index app = int (length names) \<and>
           registry app s1 = map (\<lambda>nm. Some \<lparr>document_class = MyDocument, name = nm\<rparr>) names \<and>
           ReportDocs app s1 = Inr s2 \<and>
           cout s2 = cout s1 @ ''Application: ReportDocs()'' @ endl
                     @ concat (map (\<lambda>nm. ''   '' @ nm @ endl) names)"
proof -
  have app0: "app0 = \<lparr>application_class = MyApplication, m_index = 0, m_docs = replicate 10 None\<rparr>"
    using assms(3) by (auto simp: MyApplication_ctor_def Application_ctor_def)
  have r0: "registry app0 s0 = map Some []"
    by (simp add: registry_def app0)
  from NewDocuments_result [of app0 names s0 "[]", OF _ _ _ assms(2) r0] assms(1)
  obtain app s1 where run: "NewDocuments app0 names s0 = Inr (app, s1)"
    and len: "length (m_docs app) = 10" and idx: "m_index app = int (length names)"
    and reg: "registry app s1 =
        map Some (map (\<lambda>nm. \<lparr>document_class = MyDocument, name = nm\<rparr>) names)"
    by (auto simp: app0)
  from ReportDocs_result [OF len _ _ reg] idx assms(1)
  obtain s2 where "ReportDocs app s1 = Inr s2"
    and "cout s2 = cout s1 @ ''Application: ReportDocs()'' @ endl
           @ concat (map (\<lambda>d. ''   '' @ name d @ endl)
               (map (\<lambda>nm. \<lparr>document_class = MyDocument, name = nm\<rparr>) names))"
    by auto
  with run idx reg show ?thesis
    by (simp add: comp_def)
qed

theorem NewDocuments_registry_witness:
  "(let app0 = fst (MyApplication_ctor initial); s0 = snd (MyApplication_ctor initial);
        names = [''foo'', ''bar'']
    in length names \<le> 10 \<and> list_all (\<lambda>nm. length nm < 20) names \<and>
       MyApplication_ctor initial = (app0, s0) \<and>
       (\<exists>app s1 s2.
           NewDocuments app0 names s0 = Inr (app, s1) \<and>
           m_index app = 2 \<and>
           registry app s1 = [Some \<lparr>document_class = MyDocument, name = ''foo''\<rparr>,
                              Some \<lparr>document_class = MyDocument, name = ''bar''\<rparr>] \<and>
           ReportDocs app s1 = Inr s2 \<and>
           cout s2 = cout s1 @ ''Application: ReportDocs()'' @ endl
                     @ ''   foo'' @ endl @ ''   bar'' @ endl))"
proof -
  let ?app0 = "fst (MyApplication_ctor initial)" and ?s0 = "snd (MyApplication_ctor initial)"
  let ?names = "[''foo'', ''bar'']"
  have h1: "length ?names \<le> 10"
    by simp
  have h2: "\<forall>nm \<in> set ?names. length nm < 20"
    by simp
  have h2': "list_all (\<lambda>nm. length nm < 20) ?names"
    by simp
  have h3: "MyApplication_ctor initial = (?app0, ?s0)"
    by simp
  have c: "\<exists>app s1 s2.
           NewDocuments ?app0 ?names ?s0 = Inr (app, s1) \<and>
           m_index app = 2 \<and>
           registry app s1 = [Some \<lparr>document_class = MyDocument, name = ''foo''\<rparr>,
                              Some \<lparr>document_class = MyDocument, name = ''bar''\<rparr>] \<and>
           ReportDocs app s1 = Inr s2 \<and>
           cout s2 = cout s1 @ ''Application: ReportDocs()'' @ endl
                     @ ''   foo'' @ endl @ ''   bar'' @ endl"
    using NewDocuments_registry [OF h1 h2 h3] by simp
  show ?thesis
    unfolding Let_def by (intro conjI h1 h2' h3 c)
qed

text \<open>
  Without the bound on the names the property fails. A name of 40 characters does not
  fit \<^verbatim>\<open>name\<close>: \<^verbatim>\<open>strcpy\<close> writes its 41 bytes over the end of the array, over the end of
  the document that holds it and on into the memory from which the next document is
  allocated. Two calls, the first with such a name, do not leave a registry of two
  documents with the two names.
\<close>

theorem NewDocuments_long_name_counterexample:
  "NewDocuments (fst (MyApplication_ctor initial))
     [''a_document_name_of_exactly_forty_letters'', ''bar'']
     (snd (MyApplication_ctor initial)) = Inl BufferOverflow"
  by (simp add: NewDocument_overflow)



text \<open>
  \<^bold>\<open>C8.\<close> While at most 10 documents are appended, every write into the registry is
  within bounds and \<open>_index\<close> never exceeds 10; the eleventh append is undefined. For a
  new application and any list of at most 10 names, at every point \<open>k\<close> of the list: the
  calls so far did not write out of bounds (if they failed at all, it was by a name of
  20 characters or more); when they returned, \<open>_index\<close> is the number of calls made, at
  most 10, and the registry still has its ten slots; and one more call, with a name that
  fits, is undefined by an out-of-bounds write exactly when \<open>_index\<close> is 10, and
  otherwise returns with \<open>_index\<close> one higher.
\<close>

theorem registry_index_bounded:
  assumes "MyApplication_ctor s = (app0, s0)" and "length names \<le> 10"
  shows "case NewDocuments app0 (take k names) s0 of
           Inl e \<Rightarrow> e = BufferOverflow \<and> (\<exists>nm \<in> set names. 20 \<le> length nm)
         | Inr (app, s1) \<Rightarrow>
             m_index app = int (min k (length names)) \<and> m_index app \<le> 10 \<and>
             length (m_docs app) = 10 \<and>
             (length nm < 20 \<longrightarrow>
                (case NewDocument app nm s1 of
                   Inl e \<Rightarrow> e = IndexOutOfBounds \<and> m_index app = 10
                 | Inr (app', s2) \<Rightarrow> m_index app < 10 \<and> m_index app' = m_index app + 1))"
proof -
  have app0: "app0 = \<lparr>application_class = MyApplication, m_index = 0, m_docs = replicate 10 None\<rparr>"
    using assms(1) by (auto simp: MyApplication_ctor_def Application_ctor_def)
  have c: "case NewDocuments app0 (take k names) s0 of
           Inl e \<Rightarrow> e = BufferOverflow \<and> (\<exists>nm \<in> set (take k names). 20 \<le> length nm)
         | Inr (app, s1) \<Rightarrow>
             m_index app = m_index app0 + int (length (take k names)) \<and> length (m_docs app) = 10"
    using assms(2) by (intro NewDocuments_cases) (simp_all add: app0)
  show ?thesis
  proof (cases "NewDocuments app0 (take k names) s0")
    case (Inl e)
    with c show ?thesis
      by (auto dest: in_set_takeD)
  next
    case (Inr r)
    obtain app s1 where r: "r = (app, s1)"
      by (cases r)
    from c Inr r have idx: "m_index app = int (min k (length names))"
      and len: "length (m_docs app) = 10"
      by (simp_all add: app0 min.commute)
    have le: "0 \<le> m_index app" "m_index app \<le> 10"
      using idx assms(2) by simp_all
    have "length nm < 20 \<Longrightarrow>
        (case NewDocument app nm s1 of
           Inl e \<Rightarrow> e = IndexOutOfBounds \<and> m_index app = 10
         | Inr (app', s2) \<Rightarrow> m_index app < 10 \<and> m_index app' = m_index app + 1)"
    proof (cases "m_index app < 10")
      case True
      assume "length nm < 20"
      with True le len show ?thesis
        by (simp add: NewDocument_result)
    next
      case False
      assume "length nm < 20"
      with False le show ?thesis
        by (simp add: NewDocument_out_of_bounds)
    qed
    with Inr r idx le len show ?thesis
      by simp
  qed
qed

theorem registry_index_bounded_witness:
  "(let app0 = fst (MyApplication_ctor initial); s0 = snd (MyApplication_ctor initial);
        names = replicate 10 ''doc''
    in MyApplication_ctor initial = (app0, s0) \<and> length names \<le> 10 \<and>
       length ''eleventh'' < 20 \<and>
       (case NewDocuments app0 (take 10 names) s0 of
          Inl e \<Rightarrow> False
        | Inr (app, s1) \<Rightarrow>
            m_index app = 10 \<and> length (m_docs app) = 10 \<and>
            NewDocument app ''eleventh'' s1 = Inl IndexOutOfBounds))"
proof -
  let ?app0 = "fst (MyApplication_ctor initial)" and ?s0 = "snd (MyApplication_ctor initial)"
  let ?names = "replicate 10 ''doc''"
  have h1: "MyApplication_ctor initial = (?app0, ?s0)"
    by simp
  have h2: "length ?names \<le> 10"
    by simp
  have h3: "length ''eleventh'' < 20"
    by simp
  have c: "case NewDocuments ?app0 (take 10 ?names) ?s0 of
          Inl e \<Rightarrow> False
        | Inr (app, s1) \<Rightarrow>
            m_index app = 10 \<and> length (m_docs app) = 10 \<and>
            NewDocument app ''eleventh'' s1 = Inl IndexOutOfBounds"
  proof (cases "NewDocuments ?app0 (take 10 ?names) ?s0")
    case (Inl e)
    with registry_index_bounded [OF h1 h2, of 10 "''eleventh''"] show ?thesis
      by simp
  next
    case (Inr r)
    obtain app s1 where r: "r = (app, s1)"
      by (cases r)
    from registry_index_bounded [OF h1 h2, of 10 "''eleventh''"] Inr r h3
    have idx: "m_index app = 10" and len: "length (m_docs app) = 10"
      and step: "case NewDocument app ''eleventh'' s1 of
                   Inl e \<Rightarrow> e = IndexOutOfBounds \<and> m_index app = 10
                 | Inr (app', s2) \<Rightarrow> m_index app < 10 \<and> m_index app' = m_index app + 1"
      by simp_all
    from step idx have "NewDocument app ''eleventh'' s1 = Inl IndexOutOfBounds"
      by (cases "NewDocument app ''eleventh'' s1") auto
    with Inr r idx len show ?thesis
      by simp
  qed
  show ?thesis
    unfolding Let_def by (intro conjI h1 h2 h3 c)
qed

section \<open>Abstract factory: construction and the counter\<close>

lemma sint_of_nat_small:
  assumes "i < 2 ^ 31"
  shows "sint (of_nat i :: 32 word) = int i"
proof -
  have "sint (word_of_int (int i) :: 32 word) = signed_take_bit (LENGTH(32) - 1) (int i)"
    by (rule sint_sbintrunc')
  also have "\<dots> = int i"
    using assms by (intro signed_take_bit_int_eq_self) simp_all
  finally show ?thesis
    by simp
qed

lemma unat_of_nat_small:
  assumes "i < 2 ^ 32"
  shows "unat (of_nat i :: 32 word) = i"
  using assms by (simp add: unat_of_nat)

lemma Shape_ctors_shapes:
  "fst (Shape_ctors cs s) =
     map (\<lambda>(i, c). \<lparr>shape_class = c, shape_id = shape_total s + of_nat i\<rparr>)
         (zip [0..<length cs] cs)"
proof (induction cs arbitrary: s)
  case Nil
  then show ?case by simp
next
  case (Cons c cs)
  have "zip [0..<length (c # cs)] (c # cs) = (0, c) # zip (map Suc [0..<length cs]) cs"
    by (simp add: upt_conv_Cons map_Suc_upt del: upt_Suc)
  also have "\<dots> = (0, c) # map (\<lambda>(i, c). (Suc i, c)) (zip [0..<length cs] cs)"
    by (simp add: zip_map1)
  finally show ?case
    by (simp add: Cons.IH Shape_ctor_def split_def comp_def)
qed

lemma Shape_ctors_total:
  "shape_total (snd (Shape_ctors cs s)) = shape_total s + of_nat (length cs)"
  by (induction cs arbitrary: s) (simp_all add: Shape_ctor_def split_def Let_def)

lemma Shape_ctors_length: "length (fst (Shape_ctors cs s)) = length cs"
  by (simp add: Shape_ctors_shapes)

lemma Shape_ctors_ids:
  "map shape_id (fst (Shape_ctors cs s)) = map (\<lambda>i. shape_total s + of_nat i) [0..<length cs]"
  by (rule nth_equalityI) (simp_all add: Shape_ctors_shapes)

lemma Shape_ctors_classes: "map shape_class (fst (Shape_ctors cs s)) = cs"
  by (rule nth_equalityI) (simp_all add: Shape_ctors_shapes)

lemma Shape_ctors_nth_id:
  "i < length cs \<Longrightarrow> shape_id (fst (Shape_ctors cs s) ! i) = shape_total s + of_nat i"
  by (simp add: Shape_ctors_shapes)

lemma new_Shape_result:
  "new_Shape c s =
     (length (shape_heap s),
      s\<lparr>shape_total := shape_total s + 1,
        shape_heap := shape_heap s @ [Some \<lparr>shape_class = c, shape_id = shape_total s\<rparr>]\<rparr>)"
  by (simp add: new_Shape_def Shape_ctor_def heap_new_def)

lemma createCurvedInstance_result:
  "createCurvedInstance f s =
     new_Shape (case f of SimpleShapeFactory \<Rightarrow> Circle | RobustShapeFactory \<Rightarrow> Ellipse) s"
  by (cases f)
     (simp_all add: createCurvedInstance_def SimpleShapeFactory_createCurvedInstance_def
        RobustShapeFactory_createCurvedInstance_def)

lemma createStraightInstance_result:
  "createStraightInstance f s =
     new_Shape (case f of SimpleShapeFactory \<Rightarrow> Square | RobustShapeFactory \<Rightarrow> Rectangle) s"
  by (cases f)
     (simp_all add: createStraightInstance_def SimpleShapeFactory_createStraightInstance_def
        RobustShapeFactory_createStraightInstance_def)

text \<open>
  No other function writes \<^verbatim>\<open>Shape::total_\<close>, and none changes or removes a shape
  that exists.
\<close>

lemma Pizza_open_shapes:
  "shape_total (Pizza_open p s) = shape_total s \<and> shape_heap (Pizza_open p s) = shape_heap s"
  by (simp add: Pizza_open_def print_def)

lemma getPizza_shapes:
  "getPizza this s = Inr (p, s') \<Longrightarrow>
   shape_total s' = shape_total s \<and> shape_heap s' = shape_heap s"
  by (auto simp: getPizza_def log_call_def split: option.splits)

lemma m_pizza_arrow_shapes:
  "m_pizza_arrow this f s = Inr s' \<Longrightarrow>
   shape_total s' = shape_total s \<and> shape_heap s' = shape_heap s"
  by (auto simp: m_pizza_arrow_def split: option.splits)

lemma buildDough_shapes:
  "buildDough this s = Inr s' \<Longrightarrow>
   shape_total s' = shape_total s \<and> shape_heap s' = shape_heap s"
  by (auto simp: buildDough_def HawaiianPizzaBuilder_buildDough_def
      SpicyPizzaBuilder_buildDough_def log_call_def
      split: option.splits PizzaBuilder_class.splits dest!: m_pizza_arrow_shapes)

lemma buildSauce_shapes:
  "buildSauce this s = Inr s' \<Longrightarrow>
   shape_total s' = shape_total s \<and> shape_heap s' = shape_heap s"
  by (auto simp: buildSauce_def HawaiianPizzaBuilder_buildSauce_def
      SpicyPizzaBuilder_buildSauce_def log_call_def
      split: option.splits PizzaBuilder_class.splits dest!: m_pizza_arrow_shapes)

lemma buildTopping_shapes:
  "buildTopping this s = Inr s' \<Longrightarrow>
   shape_total s' = shape_total s \<and> shape_heap s' = shape_heap s"
  by (auto simp: buildTopping_def HawaiianPizzaBuilder_buildTopping_def
      SpicyPizzaBuilder_buildTopping_def log_call_def
      split: option.splits PizzaBuilder_class.splits dest!: m_pizza_arrow_shapes)

lemma createNewPizzaProduct_shapes:
  "createNewPizzaProduct this s = Inr s' \<Longrightarrow>
   shape_total s' = shape_total s \<and> shape_heap s' = shape_heap s"
  by (auto simp: createNewPizzaProduct_def heap_new_def log_call_def Let_def
      split: option.splits)

lemma PizzaBuilder_dtor_shapes:
  "PizzaBuilder_dtor this s = Inr s' \<Longrightarrow>
   shape_total s' = shape_total s \<and> shape_heap s' = shape_heap s"
  by (auto simp: PizzaBuilder_dtor_def Let_def split: option.splits)

lemma makePizza_shapes:
  "makePizza cook pb s = Inr (cook', s') \<Longrightarrow>
   shape_total s' = shape_total s \<and> shape_heap s' = shape_heap s"
  by (auto simp: makePizza_def and_then_eq_Inr
      dest!: createNewPizzaProduct_shapes buildDough_shapes buildSauce_shapes
        buildTopping_shapes)

lemma openPizza_shapes:
  "openPizza cook s = Inr s' \<Longrightarrow>
   shape_total s' = shape_total s \<and> shape_heap s' = shape_heap s"
  by (auto simp: openPizza_def getPizza_def Pizza_open_def print_def log_call_def
      and_then_eq_Inr split: option.splits)

lemma Document_Open_shapes:
  "Document_Open this s = Inr s' \<Longrightarrow>
   shape_total s' = shape_total s \<and> shape_heap s' = shape_heap s"
  by (auto simp: Document_Open_def MyDocument_Open_def print_def log_call_def
      split: option.splits Document_class.splits)

lemma Document_Close_shapes:
  "Document_Close this s = Inr s' \<Longrightarrow>
   shape_total s' = shape_total s \<and> shape_heap s' = shape_heap s"
  by (auto simp: Document_Close_def MyDocument_Close_def print_def log_call_def
      split: option.splits Document_class.splits)

lemma GetName_shapes:
  "GetName this s = Inr (nm, s') \<Longrightarrow>
   shape_total s' = shape_total s \<and> shape_heap s' = shape_heap s"
  by (auto simp: GetName_def log_call_def split: option.splits)

lemma MyApplication_ctor_shapes:
  "MyApplication_ctor s = (app, s') \<Longrightarrow>
   shape_total s' = shape_total s \<and> shape_heap s' = shape_heap s"
  by (auto simp: MyApplication_ctor_def Application_ctor_def print_def)

lemma CreateDocument_shapes:
  "CreateDocument this nm s = Inr (d, s') \<Longrightarrow>
   shape_total s' = shape_total s \<and> shape_heap s' = shape_heap s"
  by (auto simp: CreateDocument_def MyApplication_CreateDocument_def MyDocument_ctor_def
      Document_ctor_def heap_new_def print_def log_call_def and_then_eq_Inr Let_def
      split: if_splits Application_class.splits)

lemma NewDocument_shapes:
  "NewDocument this nm s = Inr (this', s') \<Longrightarrow>
   shape_total s' = shape_total s \<and> shape_heap s' = shape_heap s"
  by (auto simp: NewDocument_def print_def and_then_eq_Inr Let_def
      split: option.splits if_splits
      dest!: CreateDocument_shapes Document_Open_shapes)

lemma OpenDocument_shapes:
  "OpenDocument this s = (this', s') \<Longrightarrow>
   shape_total s' = shape_total s \<and> shape_heap s' = shape_heap s"
  by (auto simp: OpenDocument_def)

lemma ReportDocs_loop_shapes:
  "n = nat (m_index this - i) \<Longrightarrow> ReportDocs_loop this i s = Inr s' \<Longrightarrow>
   shape_total s' = shape_total s \<and> shape_heap s' = shape_heap s"
proof (induction n arbitrary: i s)
  case 0
  then show ?case
    by (subst (asm) ReportDocs_loop.simps) (simp split: if_splits)
next
  case (Suc n)
  from Suc.prems(1) have lt: "i < m_index this"
    by simp
  from Suc.prems(2) lt obtain a nm s1 where get: "GetName a s = Inr (nm, s1)"
    and rest: "ReportDocs_loop this (i + 1) (print (''   '' @ nm @ endl) s1) = Inr s'"
    by (subst (asm) ReportDocs_loop.simps)
       (auto simp: and_then_eq_Inr split: if_splits option.splits)
  have "shape_total s' = shape_total (print (''   '' @ nm @ endl) s1) \<and>
        shape_heap s' = shape_heap (print (''   '' @ nm @ endl) s1)"
    using Suc.prems(1) by (intro Suc.IH [OF _ rest]) simp
  with GetName_shapes [OF get] show ?case
    by (simp add: print_def)
qed

lemma ReportDocs_shapes:
  "ReportDocs this s = Inr s' \<Longrightarrow>
   shape_total s' = shape_total s \<and> shape_heap s' = shape_heap s"
  by (auto simp: ReportDocs_def print_def dest!: ReportDocs_loop_shapes [OF refl])

lemma draw_shapes:
  "draw this s = Inr s' \<Longrightarrow>
   shape_total s' = shape_total s \<and> shape_heap s' = shape_heap s"
  by (auto simp: draw_def Circle_draw_def Square_draw_def Ellipse_draw_def Rectangle_draw_def
      print_def split: option.splits Shape_class.splits)

text \<open>A construction adds one shape, with the counter as its identifier, and one to the counter.\<close>

lemma perform_shapes:
  assumes "perform op s = Inr (shs, s')"
  shows "shape_heap s' = shape_heap s @ map Some shs \<and>
         shape_total s' = shape_total s + of_nat (length shs) \<and>
         map shape_id shs = map (\<lambda>i. shape_total s + of_nat i) [0..<length shs]"
proof (cases op)
  case (Do_Pizza_open p)
  with assms show ?thesis
    by (auto simp: Pizza_open_shapes)
next
  case (Do_getPizza pb)
  with assms obtain p where r: "getPizza pb s = Inr (p, s')" and "shs = []"
    by (auto simp: and_then_eq_Inr)
  with getPizza_shapes [OF r] show ?thesis
    by simp
next
  case (Do_createNewPizzaProduct pb)
  with assms have r: "createNewPizzaProduct pb s = Inr s'" and "shs = []"
    by (auto simp: and_then_eq_Inr)
  with createNewPizzaProduct_shapes [OF r] show ?thesis
    by simp
next
  case (Do_buildDough pb)
  with assms have r: "buildDough pb s = Inr s'" and "shs = []"
    by (auto simp: and_then_eq_Inr)
  with buildDough_shapes [OF r] show ?thesis
    by simp
next
  case (Do_buildSauce pb)
  with assms have r: "buildSauce pb s = Inr s'" and "shs = []"
    by (auto simp: and_then_eq_Inr)
  with buildSauce_shapes [OF r] show ?thesis
    by simp
next
  case (Do_buildTopping pb)
  with assms have r: "buildTopping pb s = Inr s'" and "shs = []"
    by (auto simp: and_then_eq_Inr)
  with buildTopping_shapes [OF r] show ?thesis
    by simp
next
  case (Do_PizzaBuilder_dtor pb)
  with assms have r: "PizzaBuilder_dtor pb s = Inr s'" and "shs = []"
    by (auto simp: and_then_eq_Inr)
  with PizzaBuilder_dtor_shapes [OF r] show ?thesis
    by simp
next
  case (Do_openPizza cook)
  with assms have r: "openPizza cook s = Inr s'" and "shs = []"
    by (auto simp: and_then_eq_Inr)
  with openPizza_shapes [OF r] show ?thesis
    by simp
next
  case (Do_makePizza cook pb)
  with assms obtain cook1 where r: "makePizza cook pb s = Inr (cook1, s')" and "shs = []"
    by (auto simp: and_then_eq_Inr)
  with makePizza_shapes [OF r] show ?thesis
    by simp
next
  case (Do_Document_Open d)
  with assms have r: "Document_Open d s = Inr s'" and "shs = []"
    by (auto simp: and_then_eq_Inr)
  with Document_Open_shapes [OF r] show ?thesis
    by simp
next
  case (Do_Document_Close d)
  with assms have r: "Document_Close d s = Inr s'" and "shs = []"
    by (auto simp: and_then_eq_Inr)
  with Document_Close_shapes [OF r] show ?thesis
    by simp
next
  case (Do_GetName d)
  with assms obtain nm where r: "GetName d s = Inr (nm, s')" and "shs = []"
    by (auto simp: and_then_eq_Inr)
  with GetName_shapes [OF r] show ?thesis
    by simp
next
  case (Do_CreateDocument app nm)
  with assms obtain d where r: "CreateDocument app nm s = Inr (d, s')" and "shs = []"
    by (auto simp: and_then_eq_Inr)
  with CreateDocument_shapes [OF r] show ?thesis
    by simp
next
  case (Do_NewDocument app nm)
  with assms obtain app1 where r: "NewDocument app nm s = Inr (app1, s')" and "shs = []"
    by (auto simp: and_then_eq_Inr)
  with NewDocument_shapes [OF r] show ?thesis
    by simp
next
  case (Do_ReportDocs app)
  with assms have r: "ReportDocs app s = Inr s'" and "shs = []"
    by (auto simp: and_then_eq_Inr)
  with ReportDocs_shapes [OF r] show ?thesis
    by simp
next
  case (Do_draw a)
  with assms have r: "draw a s = Inr s'" and "shs = []"
    by (auto simp: and_then_eq_Inr)
  with draw_shapes [OF r] show ?thesis
    by simp
next
  case Do_MyApplication_ctor
  with assms have r: "MyApplication_ctor s = (fst (MyApplication_ctor s), s')" and "shs = []"
    by (auto simp: split_def)
  with MyApplication_ctor_shapes [OF r] show ?thesis
    by simp
next
  case (Do_OpenDocument app)
  with assms have r: "OpenDocument app s = (fst (OpenDocument app s), s')" and "shs = []"
    by (auto simp: split_def)
  with OpenDocument_shapes [OF r] show ?thesis
    by simp
next
  case (Do_new_Shape c)
  with assms show ?thesis
    by (auto simp: new_Shape_result constructed_def)
next
  case (Do_createCurvedInstance f)
  with assms show ?thesis
    by (auto simp: createCurvedInstance_result new_Shape_result constructed_def)
next
  case (Do_createStraightInstance f)
  with assms show ?thesis
    by (auto simp: createStraightInstance_result new_Shape_result constructed_def)
qed

lemma perform_all_shapes:
  assumes "perform_all ops s = Inr (shs, s')"
  shows "shape_heap s' = shape_heap s @ map Some shs \<and>
         shape_total s' = shape_total s + of_nat (length shs) \<and>
         map shape_id shs = map (\<lambda>i. shape_total s + of_nat i) [0..<length shs]"
  using assms
proof (induction ops arbitrary: s shs)
  case Nil
  then show ?case by simp
next
  case (Cons op ops)
  from Cons.prems obtain shs1 s1 shs2 where one: "perform op s = Inr (shs1, s1)"
    and rest: "perform_all ops s1 = Inr (shs2, s')" and shs: "shs = shs1 @ shs2"
    by (auto simp: and_then_eq_Inr)
  note a = perform_shapes [OF one] and b = Cons.IH [OF rest]
  have "map (\<lambda>i. shape_total s + of_nat i) [0..<length shs1 + length shs2] =
        map (\<lambda>i. shape_total s + of_nat i) [0..<length shs1] @
        map (\<lambda>i. shape_total s + of_nat (length shs1) + of_nat i) [0..<length shs2]"
    by (rule nth_equalityI) (auto simp: nth_append add.assoc simp flip: of_nat_add)
  with a b show ?case
    by (simp add: shs add.assoc)
qed

lemma main_shapes:
  "\<exists>s1. main initial = Inr (0, s1) \<and> shape_total s1 = 3 \<and>
        shape_heap s1 = [Some \<lparr>shape_class = Circle, shape_id = 0\<rparr>,
                         Some \<lparr>shape_class = Square, shape_id = 1\<rparr>,
                         Some \<lparr>shape_class = Circle, shape_id = 2\<rparr>]"
  by (simp add: main_def initial_def print_def heap_new_def makePizza_result owns_live_def
      heap_get_def openPizza_def getPizza_def log_call_def Pizza_open_def
      MyApplication_ctor_def Application_ctor_def NewDocument_result
      ReportDocs_def ReportDocs_loop.simps GetName_def
      createCurvedInstance_result createStraightInstance_result new_Shape_result
      draw_loop.simps draw_def Circle_draw_def Square_draw_def string_of_int_def
      string_of_nat.simps PizzaBuilder_dtor_def heap_put_def heap_delete_def)

lemma identifiers_from_zero:
  assumes ids: "map shape_id shs = map of_nat [0..<length shs]"
  shows "(length shs \<le> 2 ^ 31 \<longrightarrow>
            map (\<lambda>sh. sint (shape_id sh)) shs = map int [0..<length shs] \<and>
            sorted_wrt (<) (map (\<lambda>sh. sint (shape_id sh)) shs)) \<and>
         (length shs \<le> 2 ^ 32 \<longrightarrow> distinct (map shape_id shs))"
proof -
  have signed: "map (\<lambda>sh. sint (shape_id sh)) shs = map int [0..<length shs]"
    if "length shs \<le> 2 ^ 31"
  proof -
    have "map (\<lambda>sh. sint (shape_id sh)) shs = map sint (map shape_id shs)"
      by simp
    also have "\<dots> = map (\<lambda>i. sint (of_nat i :: 32 word)) [0..<length shs]"
      by (simp only: ids map_map comp_def)
    also have "\<dots> = map int [0..<length shs]"
      using that by (intro map_cong refl sint_of_nat_small) simp
    finally show ?thesis .
  qed
  have sorted: "sorted_wrt (<) (map int [0..<length shs])"
    by (simp add: sorted_wrt_map)
  have dist: "distinct (map shape_id shs)" if "length shs \<le> 2 ^ 32"
  proof -
    have "inj_on (of_nat :: nat \<Rightarrow> 32 word) (set [0..<length shs])"
    proof (rule inj_on_inverseI [where g = unat])
      fix i assume "i \<in> set [0..<length shs]"
      with that have "i < 2 ^ 32"
        by simp
      then show "unat (of_nat i :: 32 word) = i"
        by (rule unat_of_nat_small)
    qed
    then show ?thesis
      by (simp add: ids distinct_map)
  qed
  show ?thesis
    using signed sorted dist by simp
qed

section \<open>Abstract factory: the properties\<close>

text \<open>
  \<^bold>\<open>C4.\<close> Each creation operation of a factory returns a newly allocated shape of the
  class that the factory's class fixes: circle and square for \<^verbatim>\<open>SimpleShapeFactory\<close>,
  ellipse and rectangle for \<^verbatim>\<open>RobustShapeFactory\<close>. In every state, for either factory:
  the pointer that \<^verbatim>\<open>createCurvedInstance\<close> returns did not point to a shape before and
  points to a shape of the curved class after, the store has grown by that one shape
  and the shapes that existed are as they were; the same for
  \<^verbatim>\<open>createStraightInstance\<close> and the straight class; and curved, straight, curved, one
  after the other on one factory, yield three different shapes of the classes curved,
  straight, curved.
\<close>

theorem factory_fixed_family:
  "(case createCurvedInstance f s of (a, s') \<Rightarrow>
      heap_get (shape_heap s) a = None \<and>
      map_option shape_class (heap_get (shape_heap s') a) =
        Some (case f of SimpleShapeFactory \<Rightarrow> Circle | RobustShapeFactory \<Rightarrow> Ellipse) \<and>
      length (shape_heap s') = Suc (length (shape_heap s)) \<and>
      take (length (shape_heap s)) (shape_heap s') = shape_heap s) \<and>
   (case createStraightInstance f s of (a, s') \<Rightarrow>
      heap_get (shape_heap s) a = None \<and>
      map_option shape_class (heap_get (shape_heap s') a) =
        Some (case f of SimpleShapeFactory \<Rightarrow> Square | RobustShapeFactory \<Rightarrow> Rectangle) \<and>
      length (shape_heap s') = Suc (length (shape_heap s)) \<and>
      take (length (shape_heap s)) (shape_heap s') = shape_heap s) \<and>
   (case createCurvedInstance f s of (a1, s1) \<Rightarrow>
    case createStraightInstance f s1 of (a2, s2) \<Rightarrow>
    case createCurvedInstance f s2 of (a3, s3) \<Rightarrow>
      distinct [a1, a2, a3] \<and>
      map (\<lambda>a. map_option shape_class (heap_get (shape_heap s3) a)) [a1, a2, a3] =
        (case f of
           SimpleShapeFactory \<Rightarrow> [Some Circle, Some Square, Some Circle]
         | RobustShapeFactory \<Rightarrow> [Some Ellipse, Some Rectangle, Some Ellipse]))"
  by (cases f)
     (simp_all add: createCurvedInstance_result createStraightInstance_result new_Shape_result
        heap_get_def nth_append)

text \<open>
  \<^bold>\<open>C3.\<close> Shape identifiers are unique and strictly increasing in construction order,
  and the counter is never reset. This holds up to the width of the counter, which is a
  32-bit \<^verbatim>\<open>int\<close>. Take any client: any sequence \<open>ops\<close> of calls of the member functions
  of the program's classes, with constructions of shapes, by \<^verbatim>\<open>new\<close> or through a
  factory, anywhere among them. Started in a state \<open>s\<close> where \<^verbatim>\<open>total_\<close> is 0, if the
  sequence returns then the store of shapes is the old store followed by the shapes
  \<open>shs\<close> that were constructed, in construction order (no call changes or removes a
  shape), \<^verbatim>\<open>total_\<close> is the number of shapes constructed, their identifiers read as
  \<^verbatim>\<open>int\<close> are \<open>0, 1, 2, \<dots>\<close> in that order, strictly increasing, as long as at most
  \<open>2\<^sup>3\<^sup>1\<close> shapes are constructed, and they are pairwise different as long as at most
  \<open>2\<^sup>3\<^sup>2\<close> are. Started in any state \<open>t\<close>, the sequence leaves \<^verbatim>\<open>total_\<close> raised by the
  number of shapes it has constructed: nothing resets the counter. The same holds of
  constructors run one after the other (\<open>Shape_ctors\<close>), each adding one to the counter,
  and the program itself ends with its three shapes, of identifiers 0, 1 and 2, in the
  store and \<^verbatim>\<open>total_\<close> at 3.
\<close>

theorem shape_ids_first_2_31:
  assumes "shape_total s = 0"
  shows "(length cs \<le> 2 ^ 31 \<longrightarrow>
            map (\<lambda>sh. sint (shape_id sh)) (fst (Shape_ctors cs s)) = map int [0..<length cs] \<and>
            sorted_wrt (<) (map (\<lambda>sh. sint (shape_id sh)) (fst (Shape_ctors cs s)))) \<and>
         (length cs \<le> 2 ^ 32 \<longrightarrow> distinct (map shape_id (fst (Shape_ctors cs s)))) \<and>
         map shape_class (fst (Shape_ctors cs s)) = cs \<and>
         shape_total (snd (Shape_ctors cs s)) = of_nat (length cs) \<and>
         shape_total (snd (Shape_ctor c t)) = shape_total t + 1 \<and>
         shape_total (snd (createCurvedInstance f t)) = shape_total t + 1 \<and>
         shape_total (snd (createStraightInstance f t)) = shape_total t + 1 \<and>
         (draw a t = Inr t' \<longrightarrow> shape_total t' = shape_total t) \<and>
         (makePizza cook pb t = Inr (cook', t') \<longrightarrow> shape_total t' = shape_total t) \<and>
         (openPizza cook t = Inr t' \<longrightarrow> shape_total t' = shape_total t) \<and>
         (NewDocument app nm t = Inr (app', t') \<longrightarrow> shape_total t' = shape_total t) \<and>
         (ReportDocs app t = Inr t' \<longrightarrow> shape_total t' = shape_total t) \<and>
         (perform_all ops s = Inr (shs, s') \<longrightarrow>
            shape_heap s' = shape_heap s @ map Some shs \<and>
            shape_total s' = of_nat (length shs) \<and>
            (length shs \<le> 2 ^ 31 \<longrightarrow>
               map (\<lambda>sh. sint (shape_id sh)) shs = map int [0..<length shs] \<and>
               sorted_wrt (<) (map (\<lambda>sh. sint (shape_id sh)) shs)) \<and>
            (length shs \<le> 2 ^ 32 \<longrightarrow> distinct (map shape_id shs))) \<and>
         (perform_all ops t = Inr (shs, t') \<longrightarrow>
            shape_heap t' = shape_heap t @ map Some shs \<and>
            shape_total t' = shape_total t + of_nat (length shs)) \<and>
         (\<exists>s1. run argv envp = Inr (0, s1) \<and> shape_total s1 = 3 \<and>
               shape_heap s1 = [Some \<lparr>shape_class = Circle, shape_id = 0\<rparr>,
                                Some \<lparr>shape_class = Square, shape_id = 1\<rparr>,
                                Some \<lparr>shape_class = Circle, shape_id = 2\<rparr>])"
proof -
  have "map shape_id (fst (Shape_ctors cs s)) =
        map of_nat [0..<length (fst (Shape_ctors cs s))]"
    using assms by (simp add: Shape_ctors_ids Shape_ctors_length)
  from identifiers_from_zero [OF this]
  have direct: "(length cs \<le> 2 ^ 31 \<longrightarrow>
            map (\<lambda>sh. sint (shape_id sh)) (fst (Shape_ctors cs s)) = map int [0..<length cs] \<and>
            sorted_wrt (<) (map (\<lambda>sh. sint (shape_id sh)) (fst (Shape_ctors cs s)))) \<and>
         (length cs \<le> 2 ^ 32 \<longrightarrow> distinct (map shape_id (fst (Shape_ctors cs s))))"
    by (simp only: Shape_ctors_length)
  have ctors: "map shape_class (fst (Shape_ctors cs s)) = cs"
    "shape_total (snd (Shape_ctors cs s)) = of_nat (length cs)"
    using assms by (simp_all add: Shape_ctors_classes Shape_ctors_total)
  have one: "shape_total (snd (Shape_ctor c t)) = shape_total t + 1"
    "shape_total (snd (createCurvedInstance f t)) = shape_total t + 1"
    "shape_total (snd (createStraightInstance f t)) = shape_total t + 1"
    by (simp_all add: Shape_ctor_def createCurvedInstance_result createStraightInstance_result
        new_Shape_result)
  have frame: "draw a t = Inr t' \<longrightarrow> shape_total t' = shape_total t"
    "makePizza cook pb t = Inr (cook', t') \<longrightarrow> shape_total t' = shape_total t"
    "openPizza cook t = Inr t' \<longrightarrow> shape_total t' = shape_total t"
    "NewDocument app nm t = Inr (app', t') \<longrightarrow> shape_total t' = shape_total t"
    "ReportDocs app t = Inr t' \<longrightarrow> shape_total t' = shape_total t"
    by (auto dest: draw_shapes makePizza_shapes openPizza_shapes NewDocument_shapes
        ReportDocs_shapes)
  have client: "shape_heap s' = shape_heap s @ map Some shs \<and>
            shape_total s' = of_nat (length shs) \<and>
            (length shs \<le> 2 ^ 31 \<longrightarrow>
               map (\<lambda>sh. sint (shape_id sh)) shs = map int [0..<length shs] \<and>
               sorted_wrt (<) (map (\<lambda>sh. sint (shape_id sh)) shs)) \<and>
            (length shs \<le> 2 ^ 32 \<longrightarrow> distinct (map shape_id shs))"
    if "perform_all ops s = Inr (shs, s')"
  proof -
    note r = perform_all_shapes [OF that]
    from r assms have ids: "map shape_id shs = map of_nat [0..<length shs]"
      by simp
    from r assms have "shape_heap s' = shape_heap s @ map Some shs"
      and "shape_total s' = of_nat (length shs)"
      by simp_all
    with identifiers_from_zero [OF ids] show ?thesis
      by blast
  qed
  have anywhere: "shape_heap t' = shape_heap t @ map Some shs \<and>
            shape_total t' = shape_total t + of_nat (length shs)"
    if "perform_all ops t = Inr (shs, t')"
    using perform_all_shapes [OF that] by simp
  have program: "\<exists>s1. run argv envp = Inr (0, s1) \<and> shape_total s1 = 3 \<and>
               shape_heap s1 = [Some \<lparr>shape_class = Circle, shape_id = 0\<rparr>,
                                Some \<lparr>shape_class = Square, shape_id = 1\<rparr>,
                                Some \<lparr>shape_class = Circle, shape_id = 2\<rparr>]"
    using main_shapes by (simp add: run_def)
  from direct ctors one frame client anywhere program show ?thesis
    by blast
qed

theorem shape_ids_first_2_31_witness:
  "(let ops = [Do_MyApplication_ctor, Do_createCurvedInstance SimpleShapeFactory,
               Do_NewDocument (fst (MyApplication_ctor initial)) ''foo'',
               Do_createStraightInstance RobustShapeFactory, Do_draw 0, Do_new_Shape Circle]
    in shape_total initial = 0 \<and>
       (\<exists>shs s'. perform_all ops initial = Inr (shs, s') \<and>
          map shape_class shs = [Circle, Rectangle, Circle] \<and>
          map (\<lambda>sh. sint (shape_id sh)) shs = [0, 1, 2] \<and>
          sorted_wrt (<) (map (\<lambda>sh. sint (shape_id sh)) shs) \<and>
          distinct (map shape_id shs) \<and>
          shape_heap s' = map Some shs \<and> shape_total s' = 3) \<and>
       map (\<lambda>sh. sint (shape_id sh)) (fst (Shape_ctors [Circle, Square, Circle] initial))
         = [0, 1, 2] \<and>
       shape_total (snd (Shape_ctors [Circle, Square, Circle] initial)) = 3)"
proof -
  let ?ops = "[Do_MyApplication_ctor, Do_createCurvedInstance SimpleShapeFactory,
               Do_NewDocument (fst (MyApplication_ctor initial)) ''foo'',
               Do_createStraightInstance RobustShapeFactory, Do_draw 0, Do_new_Shape Circle]"
  have h: "shape_total initial = 0"
    by (simp add: initial_def)
  have "\<exists>shs s'. perform_all ?ops initial = Inr (shs, s') \<and>
          map shape_class shs = [Circle, Rectangle, Circle]"
    by (simp add: initial_def MyApplication_ctor_def Application_ctor_def print_def
        createCurvedInstance_result createStraightInstance_result new_Shape_result
        constructed_def heap_get_def NewDocument_result draw_def Circle_draw_def
        string_of_int_def string_of_nat.simps)
  then obtain shs s' where run: "perform_all ?ops initial = Inr (shs, s')"
    and classes: "map shape_class shs = [Circle, Rectangle, Circle]"
    by (elim exE conjE)
  from classes have len: "length shs = 3"
    by (metis length_map length_Cons list.size(3) numeral_3_eq_3)
  have n: "[0..<3] = [0, 1, 2]"
    by (simp add: upt_rec)
  from shape_ids_first_2_31 [OF h, where cs = "[Circle, Square, Circle]" and ops = ?ops
      and shs = shs and s' = s']
    run len
  have client: "map (\<lambda>sh. sint (shape_id sh)) shs = [0, 1, 2] \<and>
          sorted_wrt (<) (map (\<lambda>sh. sint (shape_id sh)) shs) \<and>
          distinct (map shape_id shs) \<and>
          shape_heap s' = map Some shs \<and> shape_total s' = 3"
    and direct: "map (\<lambda>sh. sint (shape_id sh)) (fst (Shape_ctors [Circle, Square, Circle] initial))
         = [0, 1, 2]"
      "shape_total (snd (Shape_ctors [Circle, Square, Circle] initial)) = 3"
    by (simp_all add: n initial_def)
  from run classes client have "\<exists>shs s'. perform_all ?ops initial = Inr (shs, s') \<and>
          map shape_class shs = [Circle, Rectangle, Circle] \<and>
          map (\<lambda>sh. sint (shape_id sh)) shs = [0, 1, 2] \<and>
          sorted_wrt (<) (map (\<lambda>sh. sint (shape_id sh)) shs) \<and>
          distinct (map shape_id shs) \<and>
          shape_heap s' = map Some shs \<and> shape_total s' = 3"
    by (intro exI [of _ shs] exI [of _ s']) simp
  with h direct show ?thesis
    unfolding Let_def by (intro conjI)
qed

text \<open>
  Beyond that the identifiers are not increasing. Of \<open>2\<^sup>3\<^sup>1 + 1\<close> shapes constructed one
  after the other from the start of the process, the last but one has the identifier
  \<open>2\<^sup>3\<^sup>1 - 1\<close> and the last one, constructed later, has \<open>- 2\<^sup>3\<^sup>1\<close>.
\<close>

theorem shape_id_wraps_counterexample:
  "(let shs = fst (Shape_ctors (replicate 2147483649 Circle) initial)
    in length shs = 2147483649 \<and>
       sint (shape_id (shs ! 2147483647)) = 2147483647 \<and>
       sint (shape_id (shs ! 2147483648)) = - 2147483648)"
  by (simp add: Shape_ctors_length Shape_ctors_nth_id initial_def)

section \<open>The program: the property\<close>

text \<open>
  \<^bold>\<open>C9.\<close> The standard output of the program is one fixed sequence of lines, the same for
  any two runs, whatever the arguments and the environment. Two runs, each with its own
  argument vector and environment, are the same computation; a run returns 0 from
  \<^verbatim>\<open>main\<close> without undefined behaviour, and what it has written is these 22 lines, each
  ended by \<^verbatim>\<open>endl\<close>: the three banners, each after an empty line, and the lines of the
  three demonstrations.
\<close>

theorem run_output:
  "run argv envp = run argv' envp' \<and>
   (\<exists>s. run argv envp = Inr (0, s) \<and>
       cout s = concat (map (\<lambda>l. l @ endl)
         [[],
          ''----------------BUILDER ---------------------------'',
          ''Pizza with cross dough, mild sauce and ham+pineapple topping. Mmm.'',
          ''Pizza with pan baked dough, hot sauce and pepperoni+salami topping. Mmm.'',
          [],
          ''----------------FACTORY METHOD ---------------------------'',
          ''Application: ctor'',
          ''MyApplication: ctor'',
          ''Application: NewDocument()'',
          ''   MyApplication: CreateDocument()'',
          ''   MyDocument: Open()'',
          ''Application: NewDocument()'',
          ''   MyApplication: CreateDocument()'',
          ''   MyDocument: Open()'',
          ''Application: ReportDocs()'',
          ''   foo'',
          ''   bar'',
          [],
          ''----------------ABSTRACT FACTORY ---------------------------'',
          ''circle 0: draw'',
          ''square 1: draw'',
          ''circle 2: draw'']))"
  by (simp add: run_def main_def initial_def print_def heap_new_def makePizza_result owns_live_def
      heap_get_def openPizza_def getPizza_def log_call_def Pizza_open_def
      MyApplication_ctor_def Application_ctor_def NewDocument_result
      ReportDocs_def ReportDocs_loop.simps GetName_def
      createCurvedInstance_result createStraightInstance_result new_Shape_result
      draw_loop.simps draw_def Circle_draw_def Square_draw_def string_of_int_def
      string_of_nat.simps PizzaBuilder_dtor_def heap_put_def heap_delete_def)

end
